theory Spec2Isabelle
  imports Complex_Main "HOL-Library.Sublist"
begin

section \<open>Errors\<close>

text \<open>
  Python exceptions become values.  The notebooks themselves contain no \<open>raise\<close>;
  the exceptions that can leave their functions are the interpreter's
  (\<open>ZeroDivisionError\<close> from \<open>/\<close>, \<open>OverflowError\<close> from a conversion or a
  division that leaves the range of floats, \<open>ValueError\<close> from \<open>float\<close>,
  \<open>FileNotFoundError\<close> from \<open>open\<close>) and whatever a library call (the storage
  client, \<open>json.loads\<close>) raises, written \<open>LibraryError\<close> with the library's message.
  \<open>StorageUnavailable\<close> and \<open>InvalidKey\<close> are the two failures the specification
  gives to a write to the object store.  The last three constructors are the other
  names of the specification's error taxonomy; they are listed so that statements
  about them can be written down, and no function below ever builds one of them.
\<close>

datatype error =
    ZeroDivisionError
  | OverflowError
  | ValueError
  | FileNotFoundError
  | LibraryError string
  | StorageUnavailable
  | InvalidKey
  | InvalidArgument
  | EmptyInput
  | AggregationFailure

section \<open>create\_seeds\<close>

text \<open>
  \<^verbatim>\<open>
  def create_seeds_func(n_samples: int) -> list:
      constant = 10  # just so I know something is happening
      return [constant + i for i in range(n_samples)]
  \<close>
  The function is the same in both map-reduce notebooks.  Python's \<open>range(n)\<close> is the
  list \<open>0, ..., n - 1\<close>, empty when \<open>n \<le> 0\<close>.
\<close>

definition range_py :: "int \<Rightarrow> int list" where
  "range_py n = [0..n - 1]"

definition create_seeds_func :: "int \<Rightarrow> error + int list" where
  "create_seeds_func n_samples =
     (let constant = 10 in Inr (map (\<lambda>i. constant + i) (range_py n_samples)))"

section \<open>Strings\<close>

text \<open>
  \<open>s.rstrip(chars)\<close> removes the longest suffix of \<open>s\<close> made of characters of
  \<open>chars\<close>; \<open>str(n)\<close> of an integer is its decimal numeral, with a leading minus
  sign for a negative one.  An f-string is the concatenation of its pieces.
\<close>

definition rstrip :: "string \<Rightarrow> string \<Rightarrow> string" where
  "rstrip chars s = rev (dropWhile (\<lambda>c. c \<in> set chars) (rev s))"

definition digit :: "nat \<Rightarrow> char" where
  "digit d = ''0123456789'' ! d"

function str_nat :: "nat \<Rightarrow> string" where
  "str_nat n = (if n < 10 then [digit n] else str_nat (n div 10) @ [digit (n mod 10)])"
  by pat_completeness auto
termination
  by (relation "measure (\<lambda>n. n)") auto

declare str_nat.simps [simp del]

definition str_int :: "int \<Rightarrow> string" where
  "str_int i = (if i < 0 then ''-'' @ str_nat (nat (- i)) else str_nat (nat i))"

section \<open>Floating-point numbers\<close>

text \<open>
  A Python \<open>float\<close> is an IEEE 754 double.  A finite one is \<open>m \<times> 2\<^sup>e\<close> for integers
  \<open>m\<close> and \<open>e\<close>; the others are the two infinities and not-a-number.  The sign of a
  zero is not kept: it shows in no comparison and in no sum, product or quotient that
  the notebooks compute.
\<close>

datatype pyfloat = Finite int int | PosInf | NegInf | NaN

fun fval :: "pyfloat \<Rightarrow> real option" where
  "fval (Finite m e) = Some (of_int m * 2 powi e)"
| "fval PosInf = None"
| "fval NegInf = None"
| "fval NaN = None"

text \<open>
  Rounding to the nearest double, ties to even: the exact result is scaled so that
  53 bits stand before the point (fewer below the smallest normal exponent), rounded
  to an integer, and becomes an infinity when it leaves the range.
\<close>

definition round_half_even :: "real \<Rightarrow> int" where
  "round_half_even q =
     (let f = \<lfloor>q\<rfloor>; r = q - of_int f
      in if r < 1 / 2 then f else if 1 / 2 < r then f + 1 else if even f then f else f + 1)"

definition round_double :: "real \<Rightarrow> pyfloat" where
  "round_double x =
     (if x = 0 then Finite 0 0
      else let e = max (\<lfloor>log 2 \<bar>x\<bar>\<rfloor> - 52) (- 1074);
               n = round_half_even (x / 2 powi e)
           in if 2 ^ 1024 \<le> \<bar>of_int n * 2 powi e :: real\<bar>
              then (if 0 < x then PosInf else NegInf)
              else Finite n e)"


text \<open>
  The arithmetic of the processor: each operation returns the exact result rounded,
  with the usual results on infinities and not-a-number.  Python checks for a zero
  divisor before it divides, so \<open>ieee_div\<close> is only used with a divisor that is not zero.
\<close>

fun fsgn :: "pyfloat \<Rightarrow> int" where
  "fsgn (Finite m e) = sgn m"
| "fsgn PosInf = 1"
| "fsgn NegInf = - 1"
| "fsgn NaN = 0"

fun fneg :: "pyfloat \<Rightarrow> pyfloat" where
  "fneg (Finite m e) = Finite (- m) e"
| "fneg PosInf = NegInf"
| "fneg NegInf = PosInf"
| "fneg NaN = NaN"

definition signed_inf :: "int \<Rightarrow> pyfloat" where
  "signed_inf s = (if s = 0 then NaN else if 0 < s then PosInf else NegInf)"

definition ieee_add :: "pyfloat \<Rightarrow> pyfloat \<Rightarrow> pyfloat" where
  "ieee_add a b =
     (case (a, b) of
        (NaN, _) \<Rightarrow> NaN
      | (_, NaN) \<Rightarrow> NaN
      | (PosInf, NegInf) \<Rightarrow> NaN
      | (NegInf, PosInf) \<Rightarrow> NaN
      | (PosInf, _) \<Rightarrow> PosInf
      | (_, PosInf) \<Rightarrow> PosInf
      | (NegInf, _) \<Rightarrow> NegInf
      | (_, NegInf) \<Rightarrow> NegInf
      | (Finite m e, Finite n f) \<Rightarrow> round_double (of_int m * 2 powi e + of_int n * 2 powi f))"

definition ieee_sub :: "pyfloat \<Rightarrow> pyfloat \<Rightarrow> pyfloat" where
  "ieee_sub a b = ieee_add a (fneg b)"

definition ieee_mul :: "pyfloat \<Rightarrow> pyfloat \<Rightarrow> pyfloat" where
  "ieee_mul a b =
     (case (a, b) of
        (NaN, _) \<Rightarrow> NaN
      | (_, NaN) \<Rightarrow> NaN
      | (Finite m e, Finite n f) \<Rightarrow> round_double ((of_int m * 2 powi e) * (of_int n * 2 powi f))
      | _ \<Rightarrow> signed_inf (fsgn a * fsgn b))"

definition ieee_div :: "pyfloat \<Rightarrow> pyfloat \<Rightarrow> pyfloat" where
  "ieee_div a b =
     (case (a, b) of
        (NaN, _) \<Rightarrow> NaN
      | (_, NaN) \<Rightarrow> NaN
      | (Finite m e, Finite n f) \<Rightarrow> round_double ((of_int m * 2 powi e) / (of_int n * 2 powi f))
      | (Finite m e, _) \<Rightarrow> Finite 0 0
      | (_, Finite n f) \<Rightarrow> signed_inf (fsgn a * fsgn b)
      | _ \<Rightarrow> NaN)"

definition float_le :: "pyfloat \<Rightarrow> pyfloat \<Rightarrow> bool" where
  "float_le a b =
     (case (a, b) of
        (NaN, _) \<Rightarrow> False
      | (_, NaN) \<Rightarrow> False
      | (NegInf, _) \<Rightarrow> True
      | (_, PosInf) \<Rightarrow> True
      | (PosInf, _) \<Rightarrow> False
      | (_, NegInf) \<Rightarrow> False
      | (Finite m e, Finite n f) \<Rightarrow> (of_int m * 2 powi e :: real) \<le> of_int n * 2 powi f)"

text \<open>
  A Python number is an \<open>int\<close> of any size or a \<open>float\<close>.  An \<open>int\<close> that meets a
  \<open>float\<close> is converted first, rounded, with \<open>OverflowError\<close> when it is too large;
  two \<open>int\<close>s are added exactly, and their true quotient is the exact quotient rounded.
\<close>

datatype pynum = PyInt int | PyFloat pyfloat

definition to_float :: "int \<Rightarrow> error + pyfloat" where
  "to_float n =
     (case round_double (of_int n) of
        PosInf \<Rightarrow> Inl OverflowError
      | NegInf \<Rightarrow> Inl OverflowError
      | r \<Rightarrow> Inr r)"

definition as_float :: "pynum \<Rightarrow> error + pyfloat" where
  "as_float v = (case v of PyInt n \<Rightarrow> to_float n | PyFloat x \<Rightarrow> Inr x)"

definition py_add :: "pynum \<Rightarrow> pynum \<Rightarrow> error + pynum" where
  "py_add v w =
     (case (v, w) of
        (PyInt a, PyInt b) \<Rightarrow> Inr (PyInt (a + b))
      | _ \<Rightarrow>
          (case as_float v of
             Inl e \<Rightarrow> Inl e
           | Inr x \<Rightarrow> (case as_float w of Inl e \<Rightarrow> Inl e | Inr y \<Rightarrow> Inr (PyFloat (ieee_add x y)))))"

definition py_truediv :: "pynum \<Rightarrow> pynum \<Rightarrow> error + pynum" where
  "py_truediv v w =
     (case (v, w) of
        (PyInt a, PyInt b) \<Rightarrow>
          (if b = 0 then Inl ZeroDivisionError
           else (case round_double (of_int a / of_int b) of
                   PosInf \<Rightarrow> Inl OverflowError
                 | NegInf \<Rightarrow> Inl OverflowError
                 | r \<Rightarrow> Inr (PyFloat r)))
      | _ \<Rightarrow>
          (case as_float v of
             Inl e \<Rightarrow> Inl e
           | Inr x \<Rightarrow>
               (case as_float w of
                  Inl e \<Rightarrow> Inl e
                | Inr y \<Rightarrow>
                    if fval y = Some 0 then Inl ZeroDivisionError
                    else Inr (PyFloat (ieee_div x y)))))"

section \<open>sample\<close>

text \<open>
  Both notebooks draw the point with the same statements:
  \<^verbatim>\<open>
      random.seed(seed)
      x = random.random() * 2 - 1
      y = random.random() * 2 - 1
      if (x ** 2 + y ** 2) <= 1:
          result = 4
      else:
          result = 0
  \<close>
  The generator is Python's library: it is a parameter here, as a seeding function
  and a draw that returns the float and the next generator state.  The products, the
  differences and the sum are the processor's; the \<open>int\<close> operands 2 and 1 are
  converted to the doubles \<open>round_double 2\<close> and \<open>round_double 1\<close>, and comparing with
  the \<open>int\<close> 1 is comparing with the double 1.  The power \<open>**\<close> is the C library's
  \<open>pow\<close>, a parameter.  The four outputs (the named tuple \<open>Outputs\<close> of the reusable
  notebook, the dictionary \<open>to_output\<close> of the lightweight one) are a record.
\<close>

record outputs =
  out_x :: pyfloat
  out_y :: pyfloat
  out_result :: int
  out_seed :: int

definition sample_func ::
  "(int \<Rightarrow> 'g) \<Rightarrow> ('g \<Rightarrow> pyfloat \<times> 'g) \<Rightarrow> (pyfloat \<Rightarrow> int \<Rightarrow> pyfloat) \<Rightarrow> int \<Rightarrow> outputs" where
  "sample_func random_seed random_random float_pow seed =
     (let g0 = random_seed seed;
          (u, g1) = random_random g0;
          x = ieee_sub (ieee_mul u (round_double 2)) (round_double 1);
          (v, g2) = random_random g1;
          y = ieee_sub (ieee_mul v (round_double 2)) (round_double 1);
          result = (if float_le (ieee_add (float_pow x 2) (float_pow y 2)) (round_double 1)
                    then 4 else 0)
      in \<lparr>out_x = x, out_y = y, out_result = result, out_seed = seed\<rparr>)"

text \<open>
  A power function for concrete runs: the exact power, rounded.  The C library
  returns this value at least where the exact power is itself a double.
\<close>

definition rounded_pow :: "pyfloat \<Rightarrow> int \<Rightarrow> pyfloat" where
  "rounded_pow a n = (case fval a of Some x \<Rightarrow> round_double (x ^ nat n) | None \<Rightarrow> NaN)"

text \<open>
  The lightweight notebook's \<open>sample_func\<close> goes on to store the four values:
  \<^verbatim>\<open>
      for varname, value in to_output.items():
          tempfile = f"{varname}.out"
          with open(tempfile, 'w') as fout:
              fout.write(str(value))
          destination = f"{minio_output_path.rstrip('/')}/seed_{seed}/{tempfile}"
          copy_to_minio(minio_url=minio_url, bucket=minio_bucket, ...,
                        sourcefile=tempfile, destination=destination)
      return minio_output_path
  \<close>
  The state it changes is the container's local files and the object store, keyed by
  bucket and object name.  \<open>str\<close> of a float is a parameter.
\<close>

record world =
  files :: "string \<rightharpoonup> string"
  minio :: "string \<times> string \<rightharpoonup> string"

text \<open>
  Modelled from the spec: \<open>copy_to_minio\<close> lives in \<open>utilities.py\<close>, which is not
  among the sources.  Following the specification's \<open>ResultSink.put\<close>, a write either
  fails (\<open>StorageUnavailable\<close> on a transport error, \<open>InvalidKey\<close> on a key the store
  rejects) or stores the content of the local file under the key, the last write
  winning.  Whether the service refuses a write is its own affair: \<open>refusal\<close> is a
  parameter that gives, for a bucket, a key and the store as it is, the error or
  \<open>None\<close>.  A missing local file is the error \<open>open\<close> would raise.
\<close>

definition copy_to_minio ::
  "(string \<Rightarrow> string \<Rightarrow> (string \<times> string \<rightharpoonup> string) \<Rightarrow> error option) \<Rightarrow>
     string \<Rightarrow> string \<Rightarrow> string \<Rightarrow> world \<Rightarrow> error + world" where
  "copy_to_minio refusal bucket sourcefile destination w =
     (case files w sourcefile of
        None \<Rightarrow> Inl FileNotFoundError
      | Some content \<Rightarrow>
          (case refusal bucket destination (minio w) of
             Some e \<Rightarrow> Inl e
           | None \<Rightarrow> Inr (w\<lparr>minio := (minio w)((bucket, destination) \<mapsto> content)\<rparr>)))"

definition seed_destination :: "string \<Rightarrow> int \<Rightarrow> string \<Rightarrow> string" where
  "seed_destination minio_output_path seed tempfile =
     rstrip ''/'' minio_output_path @ ''/seed_'' @ str_int seed @ ''/'' @ tempfile"

fun store_outputs ::
  "(string \<Rightarrow> string \<Rightarrow> (string \<times> string \<rightharpoonup> string) \<Rightarrow> error option) \<Rightarrow>
     string \<Rightarrow> string \<Rightarrow> int \<Rightarrow> (string \<times> string) list \<Rightarrow> world \<Rightarrow> error + world" where
  "store_outputs refusal minio_bucket minio_output_path seed [] w = Inr w"
| "store_outputs refusal minio_bucket minio_output_path seed ((varname, value) # items) w =
     (let tempfile = varname @ ''.out'';
          w1 = w\<lparr>files := (files w)(tempfile \<mapsto> value)\<rparr>;
          destination = seed_destination minio_output_path seed tempfile
      in case copy_to_minio refusal minio_bucket tempfile destination w1 of
           Inl e \<Rightarrow> Inl e
         | Inr w2 \<Rightarrow> store_outputs refusal minio_bucket minio_output_path seed items w2)"

definition to_output_items :: "(pyfloat \<Rightarrow> string) \<Rightarrow> outputs \<Rightarrow> (string \<times> string) list" where
  "to_output_items str_float to_output =
     [(''x'', str_float (out_x to_output)),
      (''y'', str_float (out_y to_output)),
      (''result'', str_int (out_result to_output)),
      (''seed'', str_int (out_seed to_output))]"

definition sample_func_lightweight ::
  "(int \<Rightarrow> 'g) \<Rightarrow> ('g \<Rightarrow> pyfloat \<times> 'g) \<Rightarrow> (pyfloat \<Rightarrow> int \<Rightarrow> pyfloat) \<Rightarrow> (pyfloat \<Rightarrow> string) \<Rightarrow>
     (string \<Rightarrow> string \<Rightarrow> (string \<times> string \<rightharpoonup> string) \<Rightarrow> error option) \<Rightarrow>
     int \<Rightarrow> string \<Rightarrow> string \<Rightarrow> world \<Rightarrow> error + string \<times> world" where
  "sample_func_lightweight random_seed random_random float_pow str_float refusal
       seed minio_bucket minio_output_path w =
     (let to_output = sample_func random_seed random_random float_pow seed
      in case store_outputs refusal minio_bucket minio_output_path seed
                (to_output_items str_float to_output) w of
           Inl e \<Rightarrow> Inl e
         | Inr w' \<Rightarrow> Inr (minio_output_path, w'))"

section \<open>The storage keys of compute\_pi\<close>

text \<open>
  Both pipelines build the location of a run from the pipeline argument and the run
  identifier:
  \<^verbatim>\<open>
      this_run_output_location = f"{str(output_location).rstrip('/')}" \
                                 f"/{kfp.dsl.RUN_ID_PLACEHOLDER}"
      sample_output_location = f"{this_run_output_location}/seeds"
  \<close>
  The lightweight pipeline hands \<open>sample_output_location\<close> to \<open>sample_func\<close> as its
  \<open>minio_output_path\<close>.  The reusable pipeline copies each sample and the average
  with the \<open>copy_to_minio\<close> component, to the destinations
  \<^verbatim>\<open>
      f"{sample_output_location}{seed}/result.out"
      f"{this_run_output_location}/result.out"
  \<close>
  \<open>compute_pi\<close> does not run with the values of a run.  The KFP compiler calls it
  once, with a \<open>PipelineParam\<close> for each argument, whose \<open>str\<close> is a placeholder text;
  \<open>RUN_ID_PLACEHOLDER\<close> is a placeholder text as well, and so is the \<open>str\<close> of the loop
  variable \<open>seed\<close>.  The strings above are therefore templates, and \<open>rstrip\<close> works on
  the placeholder.  When the pipeline runs, the workflow engine puts the values of
  the run in the place of the placeholders, in every argument of every step, from
  left to right and without reading the values again.  KFP and the engine are
  libraries outside the repository.
\<close>

definition pipelineparam :: "string \<Rightarrow> string" where
  "pipelineparam name = ''{{pipelineparam:op=;name='' @ name @ ''}}''"

definition RUN_ID_PLACEHOLDER :: string where
  "RUN_ID_PLACEHOLDER = ''{{workflow.uid}}''"

function instantiate :: "(string \<times> string) list \<Rightarrow> string \<Rightarrow> string" where
  "instantiate arguments [] = []"
| "instantiate arguments (c # cs) =
     (case find (\<lambda>(placeholder, v). placeholder \<noteq> [] \<and> prefix placeholder (c # cs)) arguments of
        None \<Rightarrow> c # instantiate arguments cs
      | Some (placeholder, v) \<Rightarrow> v @ instantiate arguments (drop (length placeholder) (c # cs)))"
  by pat_completeness auto
termination
proof (relation "measure (\<lambda>(arguments, s). length s)")
  show "wf (measure (\<lambda>(arguments, s). length s))" by simp
next
  fix arguments :: "(string \<times> string) list" and c cs
  show "((arguments, cs), (arguments, c # cs)) \<in> measure (\<lambda>(arguments, s). length s)" by simp
next
  fix arguments :: "(string \<times> string) list" and c cs x2 x y
  assume "find (\<lambda>(placeholder, v). placeholder \<noteq> [] \<and> prefix placeholder (c # cs)) arguments = Some x2"
    and "(x, y) = x2"
  then have "x \<noteq> []" by (auto simp add: find_Some_iff)
  then show "((arguments, drop (length x) (c # cs)), (arguments, c # cs))
               \<in> measure (\<lambda>(arguments, s). length s)"
    by (cases x) simp_all
qed

definition this_run_output_location :: "string \<Rightarrow> string" where
  "this_run_output_location output_location =
     rstrip ''/'' output_location @ ''/'' @ RUN_ID_PLACEHOLDER"

definition sample_output_location :: "string \<Rightarrow> string" where
  "sample_output_location output_location =
     this_run_output_location output_location @ ''/seeds''"

text \<open>Here \<open>seed\<close> is the text that \<open>str(seed)\<close> gives.\<close>

definition copy_sample_destination :: "string \<Rightarrow> string \<Rightarrow> string" where
  "copy_sample_destination output_location seed =
     sample_output_location output_location @ seed @ ''/result.out''"

definition copy_average_destination :: "string \<Rightarrow> string" where
  "copy_average_destination output_location =
     this_run_output_location output_location @ ''/result.out''"

text \<open>
  The layout the specification states, for comparison: the key of a seed's result
  and the key of the final result, from a prefix, a run identifier and a task identifier.
\<close>

definition spec_seed_key :: "string \<Rightarrow> string \<Rightarrow> int \<Rightarrow> string" where
  "spec_seed_key pfx run_id task_id =
     pfx @ ''/'' @ run_id @ ''/seeds/'' @ str_int task_id @ ''/result.out''"

definition spec_final_key :: "string \<Rightarrow> string \<Rightarrow> string" where
  "spec_final_key pfx run_id = pfx @ ''/'' @ run_id @ ''/result.out''"

section \<open>collect\_results\<close>

text \<open>
  \<^verbatim>\<open>
  def collect_results_as_list(search_location, search_pattern, minio_url,
                              minio_bucket, minio_access_key, minio_secret_key):
      obj_names = minio_find_files_matching_pattern(..., bucket=minio_bucket,
          pattern=search_pattern, prefix=search_location)
      s3 = Minio(...)
      to_return = [None] * len(obj_names)
      for i, obj_name in enumerate(obj_names):
          tempfile = f"./unique_temp_{i}"
          s3.fget_object(minio_bucket, object_name=obj_name, file_path=tempfile)
          with open(tempfile, 'r') as fin:
              to_return[i] = float(fin.read())
      return to_return
  \<close>
  The finder (\<open>utilities.py\<close>, not among the sources) and the client's \<open>fget_object\<close>
  are parameters that return a value or the exception they raise: the finder gives the
  list of object names, \<open>fget_object\<close> the content it downloads, which the model
  writes to the local file.  The endpoint and the credentials are passed through
  unchanged and are left out.  \<open>float\<close> is a parameter too, the partial function from
  texts to numbers; where it is undefined Python raises \<open>ValueError\<close>.
  An exception leaves the loop and the function at once.
\<close>

definition py_float :: "(string \<Rightarrow> real option) \<Rightarrow> string \<Rightarrow> error + real" where
  "py_float float_of text = (case float_of text of None \<Rightarrow> Inl ValueError | Some v \<Rightarrow> Inr v)"

fun collect_loop ::
  "(string \<Rightarrow> string \<Rightarrow> error + string) \<Rightarrow> (string \<Rightarrow> real option) \<Rightarrow> string \<Rightarrow>
     (nat \<times> string) list \<Rightarrow> (string \<rightharpoonup> string) \<times> real option list \<Rightarrow>
     error + (string \<rightharpoonup> string) \<times> real option list" where
  "collect_loop fget_object float_of minio_bucket [] (fs, to_return) = Inr (fs, to_return)"
| "collect_loop fget_object float_of minio_bucket ((i, obj_name) # rest) (fs, to_return) =
     (let tempfile = ''./unique_temp_'' @ str_nat i
      in case fget_object minio_bucket obj_name of
           Inl e \<Rightarrow> Inl e
         | Inr content \<Rightarrow>
             (let fs1 = fs(tempfile \<mapsto> content)
              in case fs1 tempfile of
                   None \<Rightarrow> Inl FileNotFoundError
                 | Some text \<Rightarrow>
                     (case py_float float_of text of
                        Inl e \<Rightarrow> Inl e
                      | Inr v \<Rightarrow>
                          collect_loop fget_object float_of minio_bucket rest
                            (fs1, to_return[i := Some v]))))"

definition collect_results_as_list ::
  "(string \<Rightarrow> string \<Rightarrow> string \<Rightarrow> error + string list) \<Rightarrow>
     (string \<Rightarrow> string \<Rightarrow> error + string) \<Rightarrow> (string \<Rightarrow> real option) \<Rightarrow>
     string \<Rightarrow> string \<Rightarrow> string \<Rightarrow> (string \<rightharpoonup> string) \<Rightarrow> error + real option list" where
  "collect_results_as_list minio_find_files_matching_pattern fget_object float_of
       search_location search_pattern minio_bucket fs =
     (case minio_find_files_matching_pattern minio_bucket search_pattern search_location of
        Inl e \<Rightarrow> Inl e
      | Inr obj_names \<Rightarrow>
          (case collect_loop fget_object float_of minio_bucket (enumerate 0 obj_names)
                  (fs, replicate (length obj_names) None) of
             Inl e \<Rightarrow> Inl e
           | Inr (fs', to_return) \<Rightarrow> Inr to_return))"

text \<open>
  What fetching and parsing one key gives, on its own: the parsed number, or the
  exception of the fetch or of \<open>float\<close>.  The claims about the loop are stated with it.
\<close>

definition fetch_and_parse ::
  "(string \<Rightarrow> string \<Rightarrow> error + string) \<Rightarrow> (string \<Rightarrow> real option) \<Rightarrow> string \<Rightarrow> string \<Rightarrow>
     error + real" where
  "fetch_and_parse fget_object float_of minio_bucket obj_name =
     (case fget_object minio_bucket obj_name of
        Inl e \<Rightarrow> Inl e
      | Inr content \<Rightarrow> py_float float_of content)"

section \<open>average\<close>

text \<open>
  \<^verbatim>\<open>
  def average_func(numbers) -> float:
      import json
      numbers = json.loads(numbers)
      return sum(numbers) / len(numbers)
  \<close>
  The same in both notebooks.  \<open>json.loads\<close> is the library's parser, a parameter
  that returns the list of numbers or the parser's error; \<open>sum\<close> adds from the left,
  starting at the \<open>int\<close> 0; the quotient by the length, an \<open>int\<close>, raises
  \<open>ZeroDivisionError\<close> when the length is 0.
\<close>

fun py_sum_from :: "pynum \<Rightarrow> pynum list \<Rightarrow> error + pynum" where
  "py_sum_from acc [] = Inr acc"
| "py_sum_from acc (v # vs) =
     (case py_add acc v of Inl e \<Rightarrow> Inl e | Inr acc' \<Rightarrow> py_sum_from acc' vs)"

definition py_sum :: "pynum list \<Rightarrow> error + pynum" where
  "py_sum numbers = py_sum_from (PyInt 0) numbers"

definition average_func :: "(string \<Rightarrow> error + pynum list) \<Rightarrow> string \<Rightarrow> error + pynum" where
  "average_func json_loads numbers =
     (case json_loads numbers of
        Inl e \<Rightarrow> Inl e
      | Inr ns \<Rightarrow>
          (case py_sum ns of
             Inl e \<Rightarrow> Inl e
           | Inr summed \<Rightarrow> py_truediv summed (PyInt (int (length ns)))))"

section \<open>The lightweight pipeline\<close>

text \<open>
  \<^verbatim>\<open>
  def compute_pi(n_samples, output_location, minio_bucket, minio_url, ...):
      seeds = create_seeds_op(n_samples)
      ...
      with kfp.dsl.ParallelFor(seeds.output) as seed:
          sample_op_ = sample_op(seed, minio_url, minio_bucket, minio_access_key,
                                 minio_secret_key, sample_output_location)
      search_pattern = r'.*(^|/)result.out'
      collect_results_op_ = collect_results_op(
          search_location=sample_output_location, search_pattern=search_pattern, ...)
      for s in sample_ops:
          collect_results_op_.after(s)
      average_op(collect_results_op_.output)
  \<close>
  A run of the pipeline, with the values of the run in the place of the
  placeholders.  Every step runs in a container of its own, with its own local
  files; the object store is what the steps share.  The samples of the parallel loop
  are taken one after the other, in the order of the seeds.  The list that the
  collecting step returns reaches \<open>average_func\<close> as a text, written by the
  library (\<open>json_dumps\<close>, a parameter).  The average is the output of the last step;
  no step stores it.
\<close>

fun sample_ops ::
  "(int \<Rightarrow> 'g) \<Rightarrow> ('g \<Rightarrow> pyfloat \<times> 'g) \<Rightarrow> (pyfloat \<Rightarrow> int \<Rightarrow> pyfloat) \<Rightarrow> (pyfloat \<Rightarrow> string) \<Rightarrow>
     (string \<Rightarrow> string \<Rightarrow> (string \<times> string \<rightharpoonup> string) \<Rightarrow> error option) \<Rightarrow>
     int list \<Rightarrow> string \<Rightarrow> string \<Rightarrow> (string \<times> string \<rightharpoonup> string) \<Rightarrow>
     error + (string \<times> string \<rightharpoonup> string)" where
  "sample_ops random_seed random_random float_pow str_float refusal [] minio_bucket
       minio_output_path store = Inr store"
| "sample_ops random_seed random_random float_pow str_float refusal (seed # seeds) minio_bucket
       minio_output_path store =
     (case sample_func_lightweight random_seed random_random float_pow str_float refusal
             seed minio_bucket minio_output_path \<lparr>files = Map.empty, minio = store\<rparr> of
        Inl e \<Rightarrow> Inl e
      | Inr (path, w) \<Rightarrow>
          sample_ops random_seed random_random float_pow str_float refusal seeds minio_bucket
            minio_output_path (minio w))"

definition compute_pi_lightweight ::
  "(int \<Rightarrow> 'g) \<Rightarrow> ('g \<Rightarrow> pyfloat \<times> 'g) \<Rightarrow> (pyfloat \<Rightarrow> int \<Rightarrow> pyfloat) \<Rightarrow> (pyfloat \<Rightarrow> string) \<Rightarrow>
     (string \<Rightarrow> string \<Rightarrow> (string \<times> string \<rightharpoonup> string) \<Rightarrow> error option) \<Rightarrow>
     (string \<Rightarrow> string \<Rightarrow> string \<Rightarrow> error + string list) \<Rightarrow>
     (string \<Rightarrow> string \<Rightarrow> error + string) \<Rightarrow> (string \<Rightarrow> real option) \<Rightarrow>
     (real option list \<Rightarrow> string) \<Rightarrow> (string \<Rightarrow> error + pynum list) \<Rightarrow>
     int \<Rightarrow> string \<Rightarrow> string \<Rightarrow> string \<Rightarrow> (string \<times> string \<rightharpoonup> string) \<Rightarrow>
     error + pynum \<times> (string \<times> string \<rightharpoonup> string)" where
  "compute_pi_lightweight random_seed random_random float_pow str_float refusal
       minio_find_files_matching_pattern fget_object float_of json_dumps json_loads
       n_samples output_location minio_bucket run_id store =
     (let arguments = [(pipelineparam ''output_location'', output_location),
                       (RUN_ID_PLACEHOLDER, run_id)];
          sample_location =
            instantiate arguments (sample_output_location (pipelineparam ''output_location''));
          search_pattern = ''.*(^|/)result.out''
      in case create_seeds_func n_samples of
           Inl e \<Rightarrow> Inl e
         | Inr seeds \<Rightarrow>
             (case sample_ops random_seed random_random float_pow str_float refusal seeds
                     minio_bucket sample_location store of
                Inl e \<Rightarrow> Inl e
              | Inr store' \<Rightarrow>
                  (case collect_results_as_list minio_find_files_matching_pattern fget_object
                          float_of sample_location search_pattern minio_bucket Map.empty of
                     Inl e \<Rightarrow> Inl e
                   | Inr values \<Rightarrow>
                       (case average_func json_loads (json_dumps values) of
                          Inl e \<Rightarrow> Inl e
                        | Inr average \<Rightarrow> Inr (average, store')))))"

section \<open>The search patterns\<close>

text \<open>
  The lightweight pipeline searches with \<^verbatim>\<open>search_pattern = r'.*(^|/)result.out'\<close>,
  the reusable one with \<^verbatim>\<open>search_pattern = r'/result.out'\<close>, handed to
  \<^verbatim>\<open>mc find ... --regex\<close>.  The patterns are written as syntax trees: \<open>Dot\<close> is
  \<open>.\<close> (any character but a newline), \<open>Bol\<close> is \<open>^\<close> (the start of the key),
  \<open>lit\<close> a run of ordinary characters.
\<close>

datatype regex = Eps | Chr char | Dot | Bol | Cat regex regex | Alt regex regex | Star regex

primrec lit :: "string \<Rightarrow> regex" where
  "lit [] = Eps"
| "lit (a # w) = Cat (Chr a) (lit w)"

definition result_out :: regex where
  "result_out = Cat (lit ''result'') (Cat Dot (lit ''out''))"

definition search_pattern_lightweight :: regex where
  "search_pattern_lightweight = Cat (Star Dot) (Cat (Alt Bol (Chr CHR ''/'')) result_out)"

definition search_pattern_reusable :: regex where
  "search_pattern_reusable = Cat (Chr CHR ''/'') result_out"

text \<open>
  Modelled from the spec: the code that applies a pattern to the keys
  (\<open>minio_find_files_matching_pattern\<close> in \<open>utilities.py\<close>, and the \<open>mc\<close> client) is
  not among the sources.  Following the specification, a pattern is an unanchored
  regular expression over the key: it matches when it matches some substring of the
  key.  A cursor is the text still to read, with a flag that says whether it is the
  whole key; \<open>matches r c\<close> lists the cursors that reading one match of \<open>r\<close> from \<open>c\<close>
  can leave.  A star repeats its body while the body consumes text, which takes at
  most as many rounds as there are characters left.
\<close>

type_synonym cursor = "bool \<times> string"

primrec star_from :: "nat \<Rightarrow> (cursor \<Rightarrow> cursor list) \<Rightarrow> cursor \<Rightarrow> cursor list" where
  "star_from 0 f c = [c]"
| "star_from (Suc n) f c =
     c # concat (map (star_from n f) (filter (\<lambda>c'. length (snd c') < length (snd c)) (f c)))"

primrec matches :: "regex \<Rightarrow> cursor \<Rightarrow> cursor list" where
  "matches Eps c = [c]"
| "matches (Chr a) c = (case snd c of [] \<Rightarrow> [] | x # xs \<Rightarrow> if x = a then [(False, xs)] else [])"
| "matches Dot c =
     (case snd c of [] \<Rightarrow> [] | x # xs \<Rightarrow> if x \<noteq> CHR 0x0A then [(False, xs)] else [])"
| "matches Bol c = (if fst c then [c] else [])"
| "matches (Cat r1 r2) c = concat (map (matches r2) (matches r1 c))"
| "matches (Alt r1 r2) c = matches r1 c @ matches r2 c"
| "matches (Star r) c = star_from (length (snd c)) (matches r) c"

fun search_from :: "regex \<Rightarrow> bool \<Rightarrow> string \<Rightarrow> bool" where
  "search_from r b [] = (matches r (b, []) \<noteq> [])"
| "search_from r b (x # xs) =
     (if matches r (b, x # xs) \<noteq> [] then True else search_from r False xs)"

definition re_search :: "regex \<Rightarrow> string \<Rightarrow> bool" where
  "re_search r key = search_from r True key"

section \<open>Properties of create\_seeds\<close>

lemma range_py_nonpos: "n \<le> 0 \<Longrightarrow> range_py n = []"
  by (simp add: range_py_def)

lemma length_range_py: "length (range_py n) = nat n"
  by (simp add: range_py_def)

lemma nth_range_py: "i < nat n \<Longrightarrow> range_py n ! i = int i"
  by (simp add: range_py_def)

lemma distinct_range_py: "distinct (range_py n)"
  by (simp add: range_py_def)

lemma map_shift_upto: "map (\<lambda>i. k + i) [a..b] = [k + a..k + b]"
proof (induction a b rule: upto.induct)
  case (1 i j)
  show ?case
  proof (cases "i \<le> j")
    case True
    then have "map (\<lambda>x. k + x) [i..j] = (k + i) # map (\<lambda>x. k + x) [i + 1..j]"
      by (simp add: upto_rec1)
    also have "\<dots> = (k + i) # [k + (i + 1)..k + j]"
      using 1 True by simp
    also have "\<dots> = [k + i..k + j]"
      using True by (simp add: upto_rec1 [of "k + i"] add.assoc)
    finally show ?thesis .
  next
    case False
    then show ?thesis by simp
  qed
qed

lemma create_seeds_func_upto: "create_seeds_func n = Inr [10..n + 9]"
proof -
  have "map (\<lambda>i. 10 + i) [0..n - 1] = [10 + 0..10 + (n - 1)]"
    by (rule map_shift_upto)
  moreover have "10 + (n - 1) = n + 9"
    by simp
  ultimately show ?thesis
    by (simp add: create_seeds_func_def range_py_def)
qed

lemma upto_prefix: "b \<le> c \<Longrightarrow> prefix [a..b] [a..c]"
proof -
  assume le: "b \<le> c"
  show ?thesis
  proof (cases "a \<le> b")
    case True
    have "[a..c] = [a..b] @ [b + 1..c]"
      using True le by (rule upto_split2)
    then show ?thesis by (simp add: prefix_def)
  next
    case False
    then show ?thesis by simp
  qed
qed

text \<open>
  C2 (as stated, refuted): \<open>create_seeds_func\<close> does not fail with \<open>InvalidArgument\<close>
  at \<open>n = 0\<close>: the call returns the empty list.
\<close>

theorem create_seeds_func_zero_returns:
  "create_seeds_func 0 = Inr [] \<and> create_seeds_func 0 \<noteq> Inl InvalidArgument"
  by (simp add: create_seeds_func_def range_py_def)

text \<open>
  C2 (amended): for every \<open>n \<le> 0\<close>, \<open>create_seeds_func n\<close> returns the empty list of
  seeds; it raises nothing, since \<open>range(n)\<close> is empty and the function checks nothing.
\<close>

theorem create_seeds_func_nonpos: "n \<le> 0 \<Longrightarrow> create_seeds_func n = Inr []"
  by (simp add: create_seeds_func_def range_py_nonpos)

theorem create_seeds_func_nonpos_witness:
  "(-3::int) \<le> 0 \<and> create_seeds_func (-3) = Inr []"
  using create_seeds_func_nonpos [of "-3"] by simp

text \<open>
  C5: for every \<open>n > 0\<close>, \<open>create_seeds_func n\<close> returns a list of exactly \<open>n\<close> pairwise
  distinct seeds.  The list is a function of \<open>n\<close> alone (its \<open>i\<close>-th entry is \<open>10 + i\<close>;
  the function reads no state and no random source), so two calls with the same \<open>n\<close>
  return the same list.
\<close>

theorem create_seeds_func_distinct:
  "0 < n \<Longrightarrow>
     (\<exists>seeds. create_seeds_func n = Inr seeds \<and> length seeds = nat n \<and> distinct seeds
        \<and> (\<forall>i < nat n. seeds ! i = 10 + int i))"
  by (simp add: create_seeds_func_def length_range_py nth_range_py distinct_range_py
      distinct_map inj_on_def)

theorem create_seeds_func_distinct_witness:
  "(0::int) < 3 \<and> create_seeds_func 3 = Inr [10, 11, 12]
     \<and> length [10, 11, 12 :: int] = nat 3 \<and> distinct [10, 11, 12 :: int]
     \<and> [10, 11, 12 :: int] ! 2 = 10 + int 2"
proof -
  have pos: "(0::int) < 3" by simp
  have val: "create_seeds_func 3 = Inr [10, 11, 12]"
    by (simp add: create_seeds_func_def range_py_def upto_rec1)
  show ?thesis
    using pos val create_seeds_func_distinct [OF pos] by simp
qed

text \<open>
  C10: \<open>create_seeds_func n\<close> is the list of the \<open>n\<close> consecutive integers from the fixed
  constant 10 on, so for \<open>n \<le> m\<close> the seeds of \<open>n\<close> are a prefix of the seeds of \<open>m\<close>:
  every seed of the smaller run is a seed of the larger one, and seeds are distinct only
  within one run.
\<close>

theorem create_seeds_func_prefix:
  "create_seeds_func n = Inr [10..n + 9]
   \<and> (n \<le> m \<longrightarrow>
        (\<exists>xs ys. create_seeds_func n = Inr xs \<and> create_seeds_func m = Inr ys
           \<and> prefix xs ys \<and> set xs \<subseteq> set ys))"
proof -
  have "n \<le> m \<Longrightarrow> prefix [10..n + 9] [10..m + 9]"
    by (rule upto_prefix) simp
  moreover have "n \<le> m \<Longrightarrow> set [10..n + 9] \<subseteq> set [10..m + 9]"
    by auto
  ultimately show ?thesis
    by (simp add: create_seeds_func_upto)
qed

theorem create_seeds_func_prefix_witness:
  "(2::int) \<le> 4 \<and> create_seeds_func 2 = Inr [10, 11] \<and> create_seeds_func 4 = Inr [10, 11, 12, 13]
   \<and> (\<exists>xs ys. create_seeds_func 2 = Inr xs \<and> create_seeds_func 4 = Inr ys
         \<and> prefix xs ys \<and> set xs \<subseteq> set ys)"
proof -
  have le: "(2::int) \<le> 4" by simp
  have v2: "create_seeds_func 2 = Inr [10, 11]"
    by (simp add: create_seeds_func_def range_py_def upto_rec1)
  have v4: "create_seeds_func 4 = Inr [10, 11, 12, 13]"
    by (simp add: create_seeds_func_def range_py_def upto_rec1)
  from create_seeds_func_prefix [of 2 4] le
  have "\<exists>xs ys. create_seeds_func 2 = Inr xs \<and> create_seeds_func 4 = Inr ys
         \<and> prefix xs ys \<and> set xs \<subseteq> set ys"
    by blast
  with le v2 v4 show ?thesis by blast
qed

section \<open>Properties of the floating-point numbers\<close>

lemma round_half_even_of_int: "round_half_even (of_int n) = n"
  by (simp add: round_half_even_def)

lemma floor_log2: 
  assumes "2 powi k \<le> x" "x < 2 powi (k + 1)"
  shows "\<lfloor>log 2 x\<rfloor> = k"
proof -
  have pos: "0 < x" using assms(1) by (smt (verit) zero_less_power_int)
  have p2: "(2::real) powr (of_int j) = 2 powi j" for j
    by (rule powr_real_of_int') simp_all
  have "2 powr (of_int k) \<le> x" using assms(1) by (simp only: p2)
  then have a: "of_int k \<le> log 2 x" using pos by (simp add: le_log_iff)
  have "x < 2 powr (of_int (k + 1))" using assms(2) by (simp only: p2)
  then have b: "log 2 x < of_int (k + 1)" using pos by (simp add: log_less_iff)
  from a b show ?thesis by (simp add: floor_eq_iff)
qed

lemma round_double_eval:
  assumes "x \<noteq> 0" "2 powi k \<le> \<bar>x\<bar>" "\<bar>x\<bar> < 2 powi (k + 1)"
  shows "round_double x =
     (let e = max (k - 52) (- 1074); n = round_half_even (x / 2 powi e)
      in if 2 ^ 1024 \<le> \<bar>of_int n * 2 powi e :: real\<bar>
         then (if 0 < x then PosInf else NegInf) else Finite n e)"
  using assms(1) floor_log2 [OF assms(2,3)] by (simp add: round_double_def)




lemma ieee_mul_finite:
  "fval a = Some x \<Longrightarrow> fval b = Some y \<Longrightarrow> ieee_mul a b = round_double (x * y)"
  by (cases a; cases b) (auto simp add: ieee_mul_def)

lemma ieee_sub_finite:
  "fval a = Some x \<Longrightarrow> fval b = Some y \<Longrightarrow> ieee_sub a b = round_double (x - y)"
  by (cases a; cases b) (auto simp add: ieee_sub_def ieee_add_def)

lemma float_le_finite:
  "fval a = Some x \<Longrightarrow> fval b = Some y \<Longrightarrow> float_le a b \<longleftrightarrow> x \<le> y"
  by (cases a; cases b) (auto simp add: float_le_def)


lemma round_double_0: "round_double 0 = Finite 0 0"
  by (simp add: round_double_def)

lemma round_double_via:
  assumes "x \<noteq> 0" "2 powi k \<le> \<bar>x\<bar>" "\<bar>x\<bar> < 2 powi (k + 1)" "- 1022 \<le> k" "k < 1023"
    and "x / 2 powi (k - 52) = of_int n"
  shows "round_double x = Finite n (k - 52)"
proof -
  have e: "max (k - 52) (- 1074) = k - 52" using assms(4) by simp
  have xn: "x = of_int n * 2 powi (k - 52)"
    using assms(6) by (simp add: field_simps)
  have "\<bar>x\<bar> < 2 powi 1024"
    using assms(3,5) by (smt (verit) power_int_increasing)
  then have "\<not> 2 ^ 1024 \<le> \<bar>of_int n * 2 powi (k - 52) :: real\<bar>"
    using xn by simp
  then show ?thesis
    using round_double_eval [OF assms(1-3)] e assms(6)
    by (simp add: Let_def round_half_even_of_int)
qed

lemma round_double_1: "round_double 1 = Finite 4503599627370496 (- 52)"
  using round_double_via [of 1 0 4503599627370496] by (simp add: power_int_minus)

lemma round_double_2: "round_double 2 = Finite 4503599627370496 (- 51)"
  using round_double_via [of 2 1 4503599627370496] by (simp add: power_int_minus)



lemma round_double_4: "round_double 4 = Finite 4503599627370496 (- 50)"
proof -
  have "round_double 4 =
     (let e = max (2 - 52) (- 1074); n = round_half_even (4 / 2 powi e)
      in if 2 ^ 1024 \<le> \<bar>of_int n * 2 powi e :: real\<bar>
         then (if 0 < (4::real) then PosInf else NegInf) else Finite n e)"
    by (rule round_double_eval) simp_all
  then show ?thesis
    by (simp add: round_half_even_def power_int_minus)
qed











section \<open>Properties of average\<close>



text \<open>
  C3 (as stated, refuted): on the JSON text of the empty list, \<open>average_func\<close> fails
  with Python's \<open>ZeroDivisionError\<close>, which is not an \<open>EmptyInput\<close> error.
\<close>

theorem empty_average_raises_ZeroDivisionError:
  "average_func (\<lambda>s. if s = ''[]'' then Inr [] else Inl (LibraryError ''JSONDecodeError'')) ''[]''
     = Inl ZeroDivisionError
   \<and> average_func (\<lambda>s. if s = ''[]'' then Inr [] else Inl (LibraryError ''JSONDecodeError'')) ''[]''
     \<noteq> Inl EmptyInput"
  by (simp add: average_func_def py_sum_def py_truediv_def)

text \<open>
  C3 (amended): applied to the empty sequence of values (an argument that
  \<open>json.loads\<close> parses to the empty list), \<open>average_func\<close> fails with
  \<open>ZeroDivisionError\<close>, raised by the division \<open>sum(numbers) / len(numbers)\<close>; the
  code has no guard and no error of its own for this case.
\<close>

theorem average_func_empty:
  "json_loads numbers = Inr [] \<Longrightarrow> average_func json_loads numbers = Inl ZeroDivisionError"
  by (simp add: average_func_def py_sum_def py_truediv_def)

theorem average_func_empty_witness:
  "(\<lambda>s. Inr []) ''[]'' = (Inr [] :: error + pynum list)
   \<and> average_func (\<lambda>s. Inr []) ''[]'' = Inl ZeroDivisionError"
  using average_func_empty [of "\<lambda>s. Inr []" "''[]''"] by simp




section \<open>Properties of sample\<close>




section \<open>Properties of the storage keys\<close>

subsection \<open>str is injective\<close>

lemma digit_inj: "m < 10 \<Longrightarrow> n < 10 \<Longrightarrow> digit m = digit n \<Longrightarrow> m = n"
proof -
  assume "m < 10" "n < 10" "digit m = digit n"
  moreover have "distinct ''0123456789''" by simp
  moreover have "length ''0123456789'' = 10" by simp
  ultimately show "m = n"
    unfolding digit_def by (metis nth_eq_iff_index_eq)
qed

lemma digit_in: "d < 10 \<Longrightarrow> digit d \<in> set ''0123456789''"
proof -
  assume "d < 10"
  then have "d < length ''0123456789''" by simp
  then show ?thesis unfolding digit_def by (rule nth_mem)
qed

lemma str_nat_small: "n < 10 \<Longrightarrow> str_nat n = [digit n]"
  by (simp add: str_nat.simps [of n])

lemma str_nat_large: "\<not> n < 10 \<Longrightarrow> str_nat n = str_nat (n div 10) @ [digit (n mod 10)]"
  by (simp add: str_nat.simps [of n])

lemma str_nat_not_Nil: "str_nat n \<noteq> []"
  by (cases "n < 10") (simp_all add: str_nat_small str_nat_large)

lemma set_str_nat: "set (str_nat n) \<subseteq> set ''0123456789''"
proof (induction n rule: str_nat.induct)
  case (1 n)
  show ?case
  proof (cases "n < 10")
    case True
    then show ?thesis using digit_in [of n] by (simp add: str_nat_small)
  next
    case False
    have "n mod 10 < 10" by simp
    then have "digit (n mod 10) \<in> set ''0123456789''" by (rule digit_in)
    with 1 False show ?thesis by (simp add: str_nat_large)
  qed
qed

lemma str_nat_inj: "str_nat m = str_nat n \<Longrightarrow> m = n"
proof (induction m arbitrary: n rule: str_nat.induct)
  case (1 m)
  show ?case
  proof (cases "m < 10")
    case m: True
    show ?thesis
    proof (cases "n < 10")
      case True
      with m "1.prems" show ?thesis by (simp add: str_nat_small digit_inj)
    next
      case False
      with m "1.prems" have "[digit m] = str_nat (n div 10) @ [digit (n mod 10)]"
        by (simp add: str_nat_small str_nat_large)
      then have "str_nat (n div 10) = []" by simp
      then show ?thesis by (simp add: str_nat_not_Nil)
    qed
  next
    case m: False
    show ?thesis
    proof (cases "n < 10")
      case True
      with m "1.prems" have "str_nat (m div 10) @ [digit (m mod 10)] = [digit n]"
        by (simp add: str_nat_small str_nat_large)
      then have "str_nat (m div 10) = []" by simp
      then show ?thesis by (simp add: str_nat_not_Nil)
    next
      case False
      with m "1.prems" have "str_nat (m div 10) @ [digit (m mod 10)]
                             = str_nat (n div 10) @ [digit (n mod 10)]"
        by (simp add: str_nat_large)
      then have a: "str_nat (m div 10) = str_nat (n div 10)"
        and b: "digit (m mod 10) = digit (n mod 10)"
        by simp_all
      from "1.IH" [OF m a] have d: "m div 10 = n div 10" .
      have "m mod 10 = n mod 10"
        using b by (intro digit_inj) simp_all
      with d show ?thesis by (metis div_mult_mod_eq)
    qed
  qed
qed

lemma str_int_inj: "str_int i = str_int j \<Longrightarrow> i = j"
proof -
  assume eq: "str_int i = str_int j"
  have nominus: "CHR ''-'' \<notin> set (str_nat k)" for k
    using set_str_nat [of k] by auto
  show ?thesis
  proof (cases "i < 0")
    case i: True
    show ?thesis
    proof (cases "j < 0")
      case True
      with i eq have "str_nat (nat (- i)) = str_nat (nat (- j))" by (simp add: str_int_def)
      then have "nat (- i) = nat (- j)" by (rule str_nat_inj)
      with i True show ?thesis by simp
    next
      case False
      with i eq have "CHR ''-'' # str_nat (nat (- i)) = str_nat (nat j)" by (simp add: str_int_def)
      then have "CHR ''-'' \<in> set (str_nat (nat j))" by (metis list.set_intros(1))
      with nominus show ?thesis by simp
    qed
  next
    case i: False
    show ?thesis
    proof (cases "j < 0")
      case True
      with i eq have "str_nat (nat i) = CHR ''-'' # str_nat (nat (- j))" by (simp add: str_int_def)
      then have "CHR ''-'' \<in> set (str_nat (nat i))" by (metis list.set_intros(1))
      with nominus show ?thesis by simp
    next
      case False
      with i eq have "str_nat (nat i) = str_nat (nat j)" by (simp add: str_int_def)
      then have "nat i = nat j" by (rule str_nat_inj)
      with i False show ?thesis by simp
    qed
  qed
qed

lemma no_slash_str_int: "CHR ''/'' \<notin> set (str_int i)"
  using set_str_nat [of "nat i"] set_str_nat [of "nat (- i)"]
  by (auto simp add: str_int_def)

lemma append_sep_eq:
  "xs @ c # a = ys @ c # b \<Longrightarrow> c \<notin> set xs \<Longrightarrow> c \<notin> set ys \<Longrightarrow> xs = ys"
proof (induction xs arbitrary: ys)
  case Nil
  then show ?case by (cases ys) auto
next
  case (Cons x xs)
  then show ?case by (cases ys) auto
qed

lemma seed_destination_inj:
  "seed_destination path s1 f1 = seed_destination path s2 f2 \<Longrightarrow> s1 = s2"
proof -
  assume "seed_destination path s1 f1 = seed_destination path s2 f2"
  then have "str_int s1 @ CHR ''/'' # f1 = str_int s2 @ CHR ''/'' # f2"
    by (simp add: seed_destination_def)
  then have "str_int s1 = str_int s2"
    by (rule append_sep_eq) (simp_all add: no_slash_str_int)
  then show ?thesis by (rule str_int_inj)
qed

subsection \<open>What the samples write\<close>

lemma rstrip_seeds: "rstrip ''/'' (p @ ''/seeds'') = p @ ''/seeds''"
  by (simp add: rstrip_def)

lemma rstrip_pipelineparam: "rstrip ''/'' (pipelineparam name) = pipelineparam name"
  by (simp add: rstrip_def pipelineparam_def)

lemma instantiate_sample_output_location:
  "instantiate [(pipelineparam ''output_location'', loc), (RUN_ID_PLACEHOLDER, run_id)]
     (sample_output_location (pipelineparam ''output_location'')) = loc @ ''/'' @ run_id @ ''/seeds''"
  by (simp add: sample_output_location_def this_run_output_location_def pipelineparam_def
      RUN_ID_PLACEHOLDER_def rstrip_def)

lemma instantiate_copy_average_destination:
  "instantiate [(pipelineparam ''output_location'', loc), (RUN_ID_PLACEHOLDER, run_id)]
     (copy_average_destination (pipelineparam ''output_location''))
     = loc @ ''/'' @ run_id @ ''/result.out''"
  by (simp add: copy_average_destination_def this_run_output_location_def pipelineparam_def
      RUN_ID_PLACEHOLDER_def rstrip_def)

lemma copy_sample_destination_template:
  "copy_sample_destination (pipelineparam ''output_location'') seed
     = pipelineparam ''output_location'' @ ''/'' @ RUN_ID_PLACEHOLDER @ ''/seeds'' @ seed
         @ ''/result.out''"
  by (simp add: copy_sample_destination_def sample_output_location_def
      this_run_output_location_def rstrip_pipelineparam)

lemma seed_destination_run:
  "seed_destination (loc @ ''/'' @ run_id @ ''/seeds'') seed f
     = loc @ ''/'' @ run_id @ ''/seeds/seed_'' @ str_int seed @ ''/'' @ f"
proof -
  have "rstrip ''/'' ((loc @ ''/'' @ run_id) @ ''/seeds'') = (loc @ ''/'' @ run_id) @ ''/seeds''"
    by (rule rstrip_seeds)
  then show ?thesis by (simp add: seed_destination_def)
qed

lemma final_key_not_seed_key:
  "loc @ ''/'' @ run_id @ ''/result.out'' \<noteq> seed_destination (loc @ ''/'' @ run_id @ ''/seeds'') seed f"
  unfolding seed_destination_run by simp

lemma store_outputs_frame:
  "store_outputs refusal bucket path seed items w = Inr w' \<Longrightarrow>
   \<forall>(varname, v) \<in> set items. k \<noteq> (bucket, seed_destination path seed (varname @ ''.out'')) \<Longrightarrow>
     minio w' k = minio w k"
proof (induction items arbitrary: w)
  case Nil
  then show ?case by simp
next
  case (Cons item items)
  obtain varname v where item: "item = (varname, v)" by (cases item)
  let ?w1 = "w\<lparr>files := (files w)(varname @ ''.out'' \<mapsto> v)\<rparr>"
  let ?d = "seed_destination path seed (varname @ ''.out'')"
  from Cons.prems(1) item obtain w2 where
    c: "copy_to_minio refusal bucket (varname @ ''.out'') ?d ?w1 = Inr w2"
    and r: "store_outputs refusal bucket path seed items w2 = Inr w'"
    by (auto simp add: Let_def split: sum.splits)
  from c have "minio w2 = (minio w)((bucket, ?d) \<mapsto> v)"
    by (auto simp add: copy_to_minio_def split: option.splits)
  moreover from Cons.prems(2) item have "k \<noteq> (bucket, ?d)" by simp
  ultimately have "minio w2 k = minio w k" by simp
  moreover from Cons.prems(2)
  have "\<forall>(varname, v) \<in> set items. k \<noteq> (bucket, seed_destination path seed (varname @ ''.out''))"
    by simp
  ultimately show ?case using Cons.IH [OF r] by simp
qed

lemma store_outputs_append:
  "store_outputs refusal bucket path seed (xs @ ys) w = Inr w' \<Longrightarrow>
     \<exists>w1. store_outputs refusal bucket path seed xs w = Inr w1
        \<and> store_outputs refusal bucket path seed ys w1 = Inr w'"
proof (induction xs arbitrary: w)
  case Nil
  then show ?case by simp
next
  case (Cons item xs)
  obtain n u where item: "item = (n, u)" by (cases item)
  from Cons.prems item show ?case
    by (auto simp add: Let_def split: sum.splits dest: Cons.IH)
qed

lemma store_outputs_last:
  "store_outputs refusal bucket path seed (items @ [(varname, v)]) w = Inr w' \<Longrightarrow>
     minio w' (bucket, seed_destination path seed (varname @ ''.out'')) = Some v"
proof -
  assume "store_outputs refusal bucket path seed (items @ [(varname, v)]) w = Inr w'"
  from store_outputs_append [OF this] obtain w1 where
    "store_outputs refusal bucket path seed [(varname, v)] w1 = Inr w'"
    by blast
  then show ?thesis
    by (auto simp add: Let_def copy_to_minio_def split: sum.splits option.splits)
qed

lemma sample_func_lightweight_store:
  assumes "sample_func_lightweight random_seed random_random float_pow str_float refusal
             seed bucket path w = Inr (p, w')"
  shows "minio w' (bucket, seed_destination path seed ''result.out'')
           = Some (str_int (out_result (sample_func random_seed random_random float_pow seed)))"
    and "\<forall>f. k \<noteq> (bucket, seed_destination path seed f) \<Longrightarrow> minio w' k = minio w k"
proof -
  let ?out = "sample_func random_seed random_random float_pow seed"
  let ?xs = "[(''x'', str_float (out_x ?out)), (''y'', str_float (out_y ?out))]"
  from assms have run: "store_outputs refusal bucket path seed (to_output_items str_float ?out) w
                          = Inr w'"
    by (auto simp add: sample_func_lightweight_def Let_def split: sum.splits)
  have items: "to_output_items str_float ?out
                 = (?xs @ [(''result'', str_int (out_result ?out))])
                     @ [(''seed'', str_int (out_seed ?out))]"
    by (simp add: to_output_items_def)
  from run obtain w1 where
    a: "store_outputs refusal bucket path seed
          (?xs @ [(''result'', str_int (out_result ?out))]) w = Inr w1"
    and b: "store_outputs refusal bucket path seed [(''seed'', str_int (out_seed ?out))] w1
              = Inr w'"
    unfolding items using store_outputs_append by blast
  have "minio w1 (bucket, seed_destination path seed (''result'' @ ''.out''))
          = Some (str_int (out_result ?out))"
    using a by (rule store_outputs_last)
  moreover have "minio w' (bucket, seed_destination path seed ''result.out'')
                   = minio w1 (bucket, seed_destination path seed ''result.out'')"
    using b by (rule store_outputs_frame) (simp add: seed_destination_def)
  ultimately show "minio w' (bucket, seed_destination path seed ''result.out'')
           = Some (str_int (out_result ?out))"
    by simp
  show "minio w' k = minio w k" if "\<forall>f. k \<noteq> (bucket, seed_destination path seed f)"
    using run by (rule store_outputs_frame) (use that in auto)
qed

lemma sample_ops_frame:
  "sample_ops random_seed random_random float_pow str_float refusal seeds bucket path store
     = Inr store' \<Longrightarrow>
   \<forall>seed \<in> set seeds. \<forall>f. k \<noteq> (bucket, seed_destination path seed f) \<Longrightarrow>
     store' k = store k"
proof (induction seeds arbitrary: store)
  case Nil
  then show ?case by simp
next
  case (Cons seed seeds)
  from Cons.prems(1) obtain p w where
    s: "sample_func_lightweight random_seed random_random float_pow str_float refusal
          seed bucket path \<lparr>files = Map.empty, minio = store\<rparr> = Inr (p, w)"
    and r: "sample_ops random_seed random_random float_pow str_float refusal seeds bucket path
              (minio w) = Inr store'"
    by (auto split: sum.splits)
  from Cons.prems(2) have "\<forall>f. k \<noteq> (bucket, seed_destination path seed f)" by simp
  from sample_func_lightweight_store(2) [OF s this] have "minio w k = store k" by simp
  moreover from Cons.prems(2)
  have "\<forall>seed \<in> set seeds. \<forall>f. k \<noteq> (bucket, seed_destination path seed f)" by simp
  ultimately show ?case using Cons.IH [OF r] by simp
qed

lemma sample_ops_results:
  "sample_ops random_seed random_random float_pow str_float refusal seeds bucket path store
     = Inr store' \<Longrightarrow>
   distinct seeds \<Longrightarrow>
     \<forall>seed \<in> set seeds.
        store' (bucket, seed_destination path seed ''result.out'')
          = Some (str_int (out_result (sample_func random_seed random_random float_pow seed)))"
proof (induction seeds arbitrary: store)
  case Nil
  then show ?case by simp
next
  case (Cons s seeds)
  from Cons.prems(1) obtain p w where
    h: "sample_func_lightweight random_seed random_random float_pow str_float refusal
          s bucket path \<lparr>files = Map.empty, minio = store\<rparr> = Inr (p, w)"
    and r: "sample_ops random_seed random_random float_pow str_float refusal seeds bucket path
              (minio w) = Inr store'"
    by (auto split: sum.splits)
  from Cons.prems(2) have d: "distinct seeds" and notin: "s \<notin> set seeds" by simp_all
  have "\<forall>seed \<in> set seeds. \<forall>f. (bucket, seed_destination path s ''result.out'')
            \<noteq> (bucket, seed_destination path seed f)"
    using notin seed_destination_inj by blast
  from sample_ops_frame [OF r this]
  have "store' (bucket, seed_destination path s ''result.out'')
          = minio w (bucket, seed_destination path s ''result.out'')" .
  with sample_func_lightweight_store(1) [OF h]
  have here: "store' (bucket, seed_destination path s ''result.out'')
          = Some (str_int (out_result (sample_func random_seed random_random float_pow s)))"
    by simp
  from Cons.IH [OF r d] here show ?case by simp
qed

lemma str_nat_10: "str_nat 10 = ''10''"
  by (simp add: str_nat.simps [of 10] str_nat.simps [of "Suc 0"] digit_def)

lemma str_int_10: "str_int 10 = ''10''"
  by (simp add: str_int_def str_nat_10)

lemma str_int_4: "str_int 4 = ''4''"
  by (simp add: str_int_def str_nat.simps [of 4] digit_def)

lemma sample_half_result:
  "out_result (sample_func (\<lambda>seed. 0) (\<lambda>g. (Finite 1 (- 1), Suc g)) rounded_pow 10) = 4"
proof -
  let ?rr = "\<lambda>g::nat. (Finite 1 (- 1), Suc g)"
  have two: "fval (round_double 2) = Some 2" by (simp add: round_double_2 power_int_minus)
  have one: "fval (round_double 1) = Some 1" by (simp add: round_double_1 power_int_minus)
  have h: "fval (Finite 1 (- 1)) = Some (1 / 2)" by (simp add: power_int_minus)
  have "ieee_mul (Finite 1 (- 1)) (round_double 2) = round_double (1 / 2 * 2)"
    using ieee_mul_finite [OF h two] by simp
  then have m: "ieee_mul (Finite 1 (- 1)) (round_double 2) = round_double 1" by simp
  have "ieee_sub (round_double 1) (round_double 1) = round_double (1 - 1)"
    using ieee_sub_finite [OF one one] by simp
  then have x: "ieee_sub (round_double 1) (round_double 1) = Finite 0 0"
    by (simp add: round_double_0)
  have p: "rounded_pow (Finite 0 0) 2 = Finite 0 0"
    by (simp add: rounded_pow_def round_double_0)
  have s: "ieee_add (Finite 0 0) (Finite 0 0) = Finite 0 0"
    by (simp add: ieee_add_def round_double_0)
  have z: "fval (Finite 0 0) = Some 0" by simp
  have le: "float_le (Finite 0 0) (round_double 1)"
    using float_le_finite [OF z one] by simp
  show ?thesis
    by (simp add: sample_func_def Let_def m x p s le)
qed

lemma average_of_one_sample:
  "average_func (\<lambda>s. Inr [PyFloat (Finite 1 2)]) ''[4.0]''
     = Inr (PyFloat (Finite 4503599627370496 (- 50)))"
proof -
  have s: "py_sum [PyFloat (Finite 1 2)] = Inr (PyFloat (Finite 4503599627370496 (- 50)))"
    by (simp add: py_sum_def py_add_def as_float_def to_float_def ieee_add_def round_double_0
        round_double_4)
  have d: "py_truediv (PyFloat (Finite 4503599627370496 (- 50))) (PyInt 1)
             = Inr (PyFloat (Finite 4503599627370496 (- 50)))"
    by (simp add: py_truediv_def as_float_def to_float_def round_double_1 ieee_div_def
        round_double_4 power_int_minus)
  show ?thesis
    by (simp add: average_func_def s d)
qed

text \<open>
  C1 (as stated, refuted): in a run with \<open>output_location = out\<close>, run identifier
  \<open>r1\<close> and seed 10 the stated key is \<open>out/r1/seeds/10/result.out\<close>; the lightweight
  \<open>sample_func\<close> writes its result to \<open>out/r1/seeds/seed_10/result.out\<close>.
\<close>

theorem seed_key_layout_differs:
  "spec_seed_key ''out'' ''r1'' 10 = ''out/r1/seeds/10/result.out''
   \<and> seed_destination
        (instantiate [(pipelineparam ''output_location'', ''out''), (RUN_ID_PLACEHOLDER, ''r1'')]
           (sample_output_location (pipelineparam ''output_location''))) 10 ''result.out''
       = ''out/r1/seeds/seed_10/result.out''
   \<and> seed_destination
        (instantiate [(pipelineparam ''output_location'', ''out''), (RUN_ID_PLACEHOLDER, ''r1'')]
           (sample_output_location (pipelineparam ''output_location''))) 10 ''result.out''
       \<noteq> spec_seed_key ''out'' ''r1'' 10"
  by (simp add: spec_seed_key_def instantiate_sample_output_location seed_destination_def
      rstrip_def str_int_10)

text \<open>
  C1 (amended): with \<open>prefix\<close> the \<open>output_location\<close> of the run as it is given (the
  \<open>rstrip\<close> of \<open>compute_pi\<close> works on the placeholder and removes nothing): whenever a
  run of the lightweight pipeline succeeds, the store holds, for every seed of the
  run, the text of that seed's result at \<open>prefix/run-id/seeds/seed_task-id/result.out\<close>,
  and what it holds at \<open>prefix/run-id/result.out\<close> is what it held before the run: the
  lightweight pipeline stores no final result.  In the reusable pipeline the step
  that copies the final average is given the destination \<open>prefix/run-id/result.out\<close>.
\<close>

theorem storage_key_layout:
  "(compute_pi_lightweight random_seed random_random float_pow str_float refusal
        minio_find_files_matching_pattern fget_object float_of json_dumps json_loads
        n_samples output_location minio_bucket run_id store = Inr (average, store')
      \<longrightarrow> (\<forall>seed \<in> set [10..n_samples + 9].
             store' (minio_bucket,
                 output_location @ ''/'' @ run_id @ ''/seeds/seed_'' @ str_int seed @ ''/result.out'')
               = Some (str_int (out_result (sample_func random_seed random_random float_pow seed))))
          \<and> store' (minio_bucket, spec_final_key output_location run_id)
              = store (minio_bucket, spec_final_key output_location run_id))
   \<and> instantiate [(pipelineparam ''output_location'', output_location), (RUN_ID_PLACEHOLDER, run_id)]
        (copy_average_destination (pipelineparam ''output_location''))
       = spec_final_key output_location run_id"
proof -
  let ?path = "output_location @ ''/'' @ run_id @ ''/seeds''"
  let ?final = "(minio_bucket, spec_final_key output_location run_id)"
  have final: "instantiate [(pipelineparam ''output_location'', output_location),
                   (RUN_ID_PLACEHOLDER, run_id)]
                 (copy_average_destination (pipelineparam ''output_location''))
               = spec_final_key output_location run_id"
    by (simp only: instantiate_copy_average_destination spec_final_key_def)
  have stores: "(\<forall>seed \<in> set [10..n_samples + 9].
             store' (minio_bucket,
                 output_location @ ''/'' @ run_id @ ''/seeds/seed_'' @ str_int seed @ ''/result.out'')
               = Some (str_int (out_result (sample_func random_seed random_random float_pow seed))))
          \<and> store' ?final = store ?final"
    if run: "compute_pi_lightweight random_seed random_random float_pow str_float refusal
        minio_find_files_matching_pattern fget_object float_of json_dumps json_loads
        n_samples output_location minio_bucket run_id store = Inr (average, store')"
  proof -
    from run have ops: "sample_ops random_seed random_random float_pow str_float refusal
        [10..n_samples + 9] minio_bucket ?path store = Inr store'"
      by (auto simp add: compute_pi_lightweight_def Let_def create_seeds_func_upto
          instantiate_sample_output_location split: sum.splits)
    have "distinct [10..n_samples + 9]" by simp
    from sample_ops_results [OF ops this]
    have a: "\<forall>seed \<in> set [10..n_samples + 9].
        store' (minio_bucket, seed_destination ?path seed ''result.out'')
          = Some (str_int (out_result (sample_func random_seed random_random float_pow seed)))" .
    have "\<forall>seed \<in> set [10..n_samples + 9]. \<forall>f.
            ?final \<noteq> (minio_bucket, seed_destination ?path seed f)"
      using final_key_not_seed_key [of output_location run_id] by (simp add: spec_final_key_def)
    from sample_ops_frame [OF ops this] have b: "store' ?final = store ?final" .
    from a [unfolded seed_destination_run] b show ?thesis by simp
  qed
  from stores final show ?thesis by blast
qed

theorem storage_key_layout_witness:
  "\<exists>average store'.
     compute_pi_lightweight (\<lambda>seed. 0) (\<lambda>g. (Finite 1 (- 1), Suc g)) rounded_pow (\<lambda>f. ''0.0'')
        (\<lambda>b d m. None) (\<lambda>b p l. Inr [''out/r1/seeds/seed_10/result.out''])
        (\<lambda>b k. Inr ''4'') (\<lambda>t. if t = ''4'' then Some 4 else None)
        (\<lambda>vs. ''[4.0]'') (\<lambda>s. Inr [PyFloat (Finite 1 2)])
        1 ''out'' ''bucket'' ''r1'' Map.empty = Inr (average, store')
     \<and> store' (''bucket'', ''out/r1/seeds/seed_10/result.out'') = Some ''4''
     \<and> store' (''bucket'', ''out/r1/result.out'') = None"
proof -
  let ?rs = "\<lambda>seed::int. 0::nat"
  let ?rr = "\<lambda>g::nat. (Finite 1 (- 1), Suc g)"
  let ?sf = "\<lambda>f::pyfloat. ''0.0''"
  let ?refusal = "\<lambda>(b::string) (d::string) (m::string \<times> string \<rightharpoonup> string). (None :: error option)"
  let ?finder = "\<lambda>(b::string) (p::string) (l::string).
                   (Inr [''out/r1/seeds/seed_10/result.out''] :: error + string list)"
  let ?fget = "\<lambda>(b::string) (k::string). (Inr ''4'' :: error + string)"
  let ?float = "\<lambda>t. if t = ''4'' then Some (4::real) else None"
  let ?dumps = "\<lambda>vs::real option list. ''[4.0]''"
  let ?loads = "\<lambda>s::string. (Inr [PyFloat (Finite 1 2)] :: error + pynum list)"
  let ?run = "compute_pi_lightweight ?rs ?rr rounded_pow ?sf ?refusal ?finder ?fget ?float
                ?dumps ?loads 1 ''out'' ''bucket'' ''r1'' Map.empty"
  have seeds: "create_seeds_func 1 = Inr [10]"
    by (simp add: create_seeds_func_upto)
  have ops: "\<exists>store'. sample_ops ?rs ?rr rounded_pow ?sf ?refusal [10] ''bucket'' ''out/r1/seeds''
                         Map.empty = Inr store'"
    by (simp add: sample_func_lightweight_def to_output_items_def copy_to_minio_def Let_def)
  have coll: "collect_results_as_list ?finder ?fget ?float ''out/r1/seeds'' ''.*(^|/)result.out''
                ''bucket'' Map.empty = Inr [Some 4]"
    by (simp add: collect_results_as_list_def py_float_def)
  from ops obtain s1 where s1: "sample_ops ?rs ?rr rounded_pow ?sf ?refusal [10] ''bucket''
                                  ''out/r1/seeds'' Map.empty = Inr s1"
    by blast
  have inst: "instantiate [(pipelineparam ''output_location'', ''out''), (RUN_ID_PLACEHOLDER, ''r1'')]
                (sample_output_location (pipelineparam ''output_location'')) = ''out/r1/seeds''"
    by (simp add: instantiate_sample_output_location)
  have run: "?run = Inr (PyFloat (Finite 4503599627370496 (- 50)), s1)"
    unfolding compute_pi_lightweight_def Let_def
    by (simp only: seeds inst s1 coll average_of_one_sample sum.case prod.case)
  from storage_key_layout [of ?rs ?rr rounded_pow ?sf ?refusal ?finder ?fget ?float ?dumps ?loads
      1 "''out''" "''bucket''" "''r1''" Map.empty "PyFloat (Finite 4503599627370496 (- 50))" s1] run
  have a: "\<forall>seed \<in> set [10..1 + 9].
             s1 (''bucket'', ''out'' @ ''/'' @ ''r1'' @ ''/seeds/seed_'' @ str_int seed @ ''/result.out'')
               = Some (str_int (out_result (sample_func ?rs ?rr rounded_pow seed)))"
    and b: "s1 (''bucket'', spec_final_key ''out'' ''r1'')
              = Map.empty (''bucket'', spec_final_key ''out'' ''r1'')"
    by blast+
  from a have "s1 (''bucket'', ''out'' @ ''/'' @ ''r1'' @ ''/seeds/seed_'' @ str_int 10 @ ''/result.out'')
               = Some (str_int (out_result (sample_func ?rs ?rr rounded_pow 10)))"
    by simp
  then have k: "s1 (''bucket'', ''out/r1/seeds/seed_10/result.out'') = Some ''4''"
    by (simp add: str_int_10 sample_half_result str_int_4)
  from b have f: "s1 (''bucket'', ''out/r1/result.out'') = None"
    by (simp add: spec_final_key_def)
  from run k f show ?thesis by blast
qed

section \<open>Properties of collect\_results\<close>

lemma collect_loop_fail:
  "fetch_and_parse fg fl b k = Inl e \<Longrightarrow>
     collect_loop fg fl b ((i, k) # rest) (fs, tr) = Inl e"
  by (auto simp add: fetch_and_parse_def Let_def split: sum.splits)

lemma collect_loop_ok:
  "fetch_and_parse fg fl b k = Inr v \<Longrightarrow>
     \<exists>fs1. collect_loop fg fl b ((i, k) # rest) (fs, tr)
             = collect_loop fg fl b rest (fs1, tr[i := Some v])"
  by (auto simp add: fetch_and_parse_def Let_def split: sum.splits)

lemma collect_loop_success:
  "collect_loop fg fl b (enumerate n names) (fs, tr) = Inr (fs', tr') \<Longrightarrow>
   n + length names \<le> length tr \<Longrightarrow>
     length tr' = length tr
     \<and> (\<forall>j < n. tr' ! j = tr ! j)
     \<and> (\<forall>i < length names. \<exists>v. fetch_and_parse fg fl b (names ! i) = Inr v
            \<and> tr' ! (n + i) = Some v)"
proof (induction names arbitrary: n fs tr)
  case Nil
  then show ?case by simp
next
  case (Cons k ks)
  show ?case
  proof (cases "fetch_and_parse fg fl b k")
    case (Inl e)
    then have "collect_loop fg fl b (enumerate n (k # ks)) (fs, tr) = Inl e"
      by (simp add: collect_loop_fail del: collect_loop.simps)
    with Cons.prems show ?thesis by simp
  next
    case (Inr v)
    then obtain fs1 where
      "collect_loop fg fl b (enumerate n (k # ks)) (fs, tr)
         = collect_loop fg fl b (enumerate (Suc n) ks) (fs1, tr[n := Some v])"
      using collect_loop_ok [of fg fl b k v n "enumerate (Suc n) ks" fs tr] by auto
    with Cons.prems have run: "collect_loop fg fl b (enumerate (Suc n) ks) (fs1, tr[n := Some v])
                                 = Inr (fs', tr')"
      by simp
    have len: "Suc n + length ks \<le> length (tr[n := Some v])"
      using Cons.prems by simp
    from Cons.IH [OF run len]
    have l: "length tr' = length tr"
      and keep: "\<forall>j < Suc n. tr' ! j = tr[n := Some v] ! j"
      and rest: "\<forall>i < length ks. \<exists>v'. fetch_and_parse fg fl b (ks ! i) = Inr v'
                    \<and> tr' ! (Suc n + i) = Some v'"
      by simp_all
    have here: "tr' ! n = Some v"
      using keep Cons.prems by simp
    have below: "\<forall>j < n. tr' ! j = tr ! j"
      using keep by simp
    have all: "\<forall>i < length (k # ks). \<exists>v'. fetch_and_parse fg fl b ((k # ks) ! i) = Inr v'
                    \<and> tr' ! (n + i) = Some v'"
    proof (intro allI impI)
      fix i assume "i < length (k # ks)"
      show "\<exists>v'. fetch_and_parse fg fl b ((k # ks) ! i) = Inr v' \<and> tr' ! (n + i) = Some v'"
      proof (cases i)
        case 0
        then show ?thesis using Inr here by simp
      next
        case (Suc i')
        then have "i' < length ks" using \<open>i < length (k # ks)\<close> by simp
        with rest Suc show ?thesis by simp
      qed
    qed
    from l below all show ?thesis by blast
  qed
qed

lemma collect_loop_failure:
  "\<exists>k \<in> set names. isl (fetch_and_parse fg fl b k) \<Longrightarrow>
     \<exists>e i. i < length names \<and> fetch_and_parse fg fl b (names ! i) = Inl e
        \<and> (\<forall>j < i. \<not> isl (fetch_and_parse fg fl b (names ! j)))
        \<and> collect_loop fg fl b (enumerate n names) (fs, tr) = Inl e"
proof (induction names arbitrary: n fs tr)
  case Nil
  then show ?case by simp
next
  case (Cons k ks)
  show ?case
  proof (cases "fetch_and_parse fg fl b k")
    case (Inl e)
    then have "collect_loop fg fl b (enumerate n (k # ks)) (fs, tr) = Inl e"
      by (simp add: collect_loop_fail del: collect_loop.simps)
    with Inl have "0 < length (k # ks) \<and> fetch_and_parse fg fl b ((k # ks) ! 0) = Inl e
        \<and> (\<forall>j < 0. \<not> isl (fetch_and_parse fg fl b ((k # ks) ! j)))
        \<and> collect_loop fg fl b (enumerate n (k # ks)) (fs, tr) = Inl e"
      by simp
    then show ?thesis by blast
  next
    case (Inr v)
    then obtain fs1 where step:
      "collect_loop fg fl b (enumerate n (k # ks)) (fs, tr)
         = collect_loop fg fl b (enumerate (Suc n) ks) (fs1, tr[n := Some v])"
      using collect_loop_ok [of fg fl b k v n "enumerate (Suc n) ks" fs tr] by auto
    from Cons.prems Inr have "\<exists>k \<in> set ks. isl (fetch_and_parse fg fl b k)"
      by auto
    from Cons.IH [OF this, of "Suc n" fs1 "tr[n := Some v]"]
    obtain e i where i: "i < length ks"
      and f: "fetch_and_parse fg fl b (ks ! i) = Inl e"
      and before: "\<forall>j < i. \<not> isl (fetch_and_parse fg fl b (ks ! j))"
      and run: "collect_loop fg fl b (enumerate (Suc n) ks) (fs1, tr[n := Some v]) = Inl e"
      by blast
    have "\<forall>j < Suc i. \<not> isl (fetch_and_parse fg fl b ((k # ks) ! j))"
    proof (intro allI impI)
      fix j assume "j < Suc i"
      then show "\<not> isl (fetch_and_parse fg fl b ((k # ks) ! j))"
        using before Inr by (cases j) simp_all
    qed
    with i f run step
    have "Suc i < length (k # ks) \<and> fetch_and_parse fg fl b ((k # ks) ! Suc i) = Inl e
        \<and> (\<forall>j < Suc i. \<not> isl (fetch_and_parse fg fl b ((k # ks) ! j)))
        \<and> collect_loop fg fl b (enumerate n (k # ks)) (fs, tr) = Inl e"
      by simp
    then show ?thesis by blast
  qed
qed

lemma fetch_and_parse_Inr:
  "fetch_and_parse fg fl b k = Inr v \<Longrightarrow> \<exists>content. fg b k = Inr content \<and> fl content = Some v"
  by (auto simp add: fetch_and_parse_def py_float_def split: sum.splits option.splits)

lemma collect_results_Inr:
  "finder b pat loc = Inr names \<Longrightarrow>
   collect_results_as_list finder fg fl loc pat b fs = Inr vs \<Longrightarrow>
     \<exists>fs'. collect_loop fg fl b (enumerate 0 names) (fs, replicate (length names) None)
             = Inr (fs', vs)"
  by (auto simp add: collect_results_as_list_def split: sum.splits)

lemma collect_results_Inl:
  "finder b pat loc = Inr names \<Longrightarrow>
   collect_loop fg fl b (enumerate 0 names) (fs, replicate (length names) None) = Inl e \<Longrightarrow>
     collect_results_as_list finder fg fl loc pat b fs = Inl e"
  by (simp add: collect_results_as_list_def)

text \<open>
  C8 (as stated, refuted): with two located keys, the second holding the text
  \<open>four\<close>, \<open>collect_results_as_list\<close> fails with the \<open>ValueError\<close> that \<open>float\<close>
  raises, which is not an \<open>AggregationFailure\<close>.
\<close>

theorem collect_results_value_error:
  "collect_results_as_list
     (\<lambda>b p l. Inr [''s/seed_10/result.out'', ''s/seed_11/result.out''])
     (\<lambda>b k. if k = ''s/seed_10/result.out'' then Inr ''4'' else Inr ''four'')
     (\<lambda>t. if t = ''4'' then Some 4 else None)
     ''s'' ''.*(^|/)result.out'' ''bucket'' Map.empty
   = Inl ValueError
   \<and> collect_results_as_list
     (\<lambda>b p l. Inr [''s/seed_10/result.out'', ''s/seed_11/result.out''])
     (\<lambda>b k. if k = ''s/seed_10/result.out'' then Inr ''4'' else Inr ''four'')
     (\<lambda>t. if t = ''4'' then Some 4 else None)
     ''s'' ''.*(^|/)result.out'' ''bucket'' Map.empty
   \<noteq> Inl AggregationFailure"
  by (simp add: collect_results_as_list_def py_float_def)

text \<open>
  C8 (amended): for every list of located keys, if fetching or parsing any single key
  fails, \<open>collect_results_as_list\<close> fails the whole call with the exception of the
  first key that fails (the storage client's exception or the \<open>ValueError\<close> of
  \<open>float\<close>, passed on unchanged) and returns no partial list; it returns a list only
  when every key was fetched and parsed.
\<close>

theorem collect_results_all_or_nothing:
  "finder bucket pat loc = Inr names \<Longrightarrow>
     ((\<exists>k \<in> set names. isl (fetch_and_parse fg fl bucket k)) \<longrightarrow>
        (\<exists>e i. i < length names \<and> fetch_and_parse fg fl bucket (names ! i) = Inl e
           \<and> (\<forall>j < i. \<not> isl (fetch_and_parse fg fl bucket (names ! j)))
           \<and> collect_results_as_list finder fg fl loc pat bucket fs = Inl e))
   \<and> ((\<exists>vs. collect_results_as_list finder fg fl loc pat bucket fs = Inr vs) \<longrightarrow>
        (\<forall>k \<in> set names. \<not> isl (fetch_and_parse fg fl bucket k)))"
proof -
  assume found: "finder bucket pat loc = Inr names"
  let ?init = "(fs, replicate (length names) (None :: real option))"
  have fails: "\<exists>e i. i < length names \<and> fetch_and_parse fg fl bucket (names ! i) = Inl e
           \<and> (\<forall>j < i. \<not> isl (fetch_and_parse fg fl bucket (names ! j)))
           \<and> collect_results_as_list finder fg fl loc pat bucket fs = Inl e"
    if bad: "\<exists>k \<in> set names. isl (fetch_and_parse fg fl bucket k)"
  proof -
    from collect_loop_failure [OF bad, of 0 fs "replicate (length names) None"]
    obtain e i where "i < length names" "fetch_and_parse fg fl bucket (names ! i) = Inl e"
      "\<forall>j < i. \<not> isl (fetch_and_parse fg fl bucket (names ! j))"
      "collect_loop fg fl bucket (enumerate 0 names) ?init = Inl e"
      by blast
    with collect_results_Inl [of finder bucket pat loc names fg fl fs] found
    show ?thesis by blast
  qed
  have "\<forall>k \<in> set names. \<not> isl (fetch_and_parse fg fl bucket k)"
    if "\<exists>vs. collect_results_as_list finder fg fl loc pat bucket fs = Inr vs"
  proof (rule ccontr)
    assume "\<not> (\<forall>k \<in> set names. \<not> isl (fetch_and_parse fg fl bucket k))"
    then have "\<exists>k \<in> set names. isl (fetch_and_parse fg fl bucket k)" by blast
    from fails [OF this] that show False by auto
  qed
  with fails show ?thesis by blast
qed

theorem collect_results_all_or_nothing_witness:
  "(\<lambda>b p l. Inr [''s/seed_10/result.out'', ''s/seed_11/result.out''])
       ''bucket'' ''.*(^|/)result.out'' ''s''
     = (Inr [''s/seed_10/result.out'', ''s/seed_11/result.out''] :: error + string list)
   \<and> (\<exists>k \<in> set [''s/seed_10/result.out'', ''s/seed_11/result.out''].
         isl (fetch_and_parse
                (\<lambda>b k. if k = ''s/seed_10/result.out'' then Inr ''4''
                        else Inl (LibraryError ''NoSuchKey''))
                (\<lambda>t. if t = ''4'' then Some 4 else None) ''bucket'' k))
   \<and> (\<exists>e. collect_results_as_list
          (\<lambda>b p l. Inr [''s/seed_10/result.out'', ''s/seed_11/result.out''])
          (\<lambda>b k. if k = ''s/seed_10/result.out'' then Inr ''4''
                  else Inl (LibraryError ''NoSuchKey''))
          (\<lambda>t. if t = ''4'' then Some 4 else None)
          ''s'' ''.*(^|/)result.out'' ''bucket'' Map.empty = Inl e)"
proof -
  let ?names = "[''s/seed_10/result.out'', ''s/seed_11/result.out'']"
  let ?finder = "\<lambda>(b::string) (p::string) (l::string). (Inr ?names :: error + string list)"
  let ?fg = "\<lambda>(b::string) k. if k = ''s/seed_10/result.out'' then Inr ''4''
                        else Inl (LibraryError ''NoSuchKey'')"
  let ?fl = "\<lambda>t. if t = ''4'' then Some (4::real) else None"
  have found: "?finder ''bucket'' ''.*(^|/)result.out'' ''s'' = Inr ?names"
    by simp
  have bad: "\<exists>k \<in> set ?names. isl (fetch_and_parse ?fg ?fl ''bucket'' k)"
    by (simp add: fetch_and_parse_def)
  from collect_results_all_or_nothing [of ?finder "''bucket''" "''.*(^|/)result.out''" "''s''"
      ?names ?fg ?fl Map.empty, OF found] bad
  have "\<exists>e. collect_results_as_list ?finder ?fg ?fl ''s'' ''.*(^|/)result.out'' ''bucket''
              Map.empty = Inl e"
    by blast
  with found bad show ?thesis by blast
qed

text \<open>
  C9: when \<open>collect_results_as_list\<close> returns, the list has one entry per located
  object name, in the order in which the finder listed the names: its length is the
  number of names and its \<open>i\<close>-th entry is the number that \<open>float\<close> parses from the
  content fetched for the \<open>i\<close>-th name (no entry is left \<open>None\<close>).
\<close>

theorem collect_results_in_order:
  "finder bucket pat loc = Inr names \<Longrightarrow>
   collect_results_as_list finder fg fl loc pat bucket fs = Inr vs \<Longrightarrow>
     length vs = length names
     \<and> (\<forall>i < length names. \<exists>content v. fg bucket (names ! i) = Inr content
            \<and> fl content = Some v \<and> vs ! i = Some v)"
proof -
  assume found: "finder bucket pat loc = Inr names"
    and ret: "collect_results_as_list finder fg fl loc pat bucket fs = Inr vs"
  from collect_results_Inr [of finder bucket pat loc names fg fl fs vs] found ret
  obtain fs' where
    run: "collect_loop fg fl bucket (enumerate 0 names) (fs, replicate (length names) None)
            = Inr (fs', vs)"
    by blast
  have "0 + length names \<le> length (replicate (length names) (None :: real option))"
    by simp
  from collect_loop_success [OF run this]
  have len: "length vs = length names"
    and each: "\<forall>i < length names. \<exists>v. fetch_and_parse fg fl bucket (names ! i) = Inr v
                  \<and> vs ! i = Some v"
    by simp_all
  have "\<forall>i < length names. \<exists>content v. fg bucket (names ! i) = Inr content
            \<and> fl content = Some v \<and> vs ! i = Some v"
  proof (intro allI impI)
    fix i assume "i < length names"
    with each obtain v where "fetch_and_parse fg fl bucket (names ! i) = Inr v" "vs ! i = Some v"
      by blast
    with fetch_and_parse_Inr [of fg fl bucket "names ! i" v]
    show "\<exists>content v. fg bucket (names ! i) = Inr content \<and> fl content = Some v \<and> vs ! i = Some v"
      by blast
  qed
  with len show ?thesis by blast
qed

theorem collect_results_in_order_witness:
  "collect_results_as_list
     (\<lambda>b p l. Inr [''s/seed_10/result.out'', ''s/seed_11/result.out''])
     (\<lambda>b k. if k = ''s/seed_10/result.out'' then Inr ''4'' else Inr ''0'')
     (\<lambda>t. if t = ''4'' then Some 4 else if t = ''0'' then Some 0 else None)
     ''s'' ''.*(^|/)result.out'' ''bucket'' Map.empty
   = Inr [Some 4, Some 0]
   \<and> length [Some (4::real), Some 0] = length [''s/seed_10/result.out'', ''s/seed_11/result.out'']
   \<and> (\<exists>content v.
          (if [''s/seed_10/result.out'', ''s/seed_11/result.out''] ! 1 = ''s/seed_10/result.out''
           then Inr ''4'' else (Inr ''0'' :: error + string)) = Inr content
          \<and> (if content = ''4'' then Some 4 else if content = ''0'' then Some 0 else None) = Some v
          \<and> [Some (4::real), Some 0] ! 1 = Some v)"
proof -
  let ?names = "[''s/seed_10/result.out'', ''s/seed_11/result.out'']"
  let ?finder = "\<lambda>(b::string) (p::string) (l::string). (Inr ?names :: error + string list)"
  let ?fg = "\<lambda>(b::string) k. if k = ''s/seed_10/result.out'' then Inr ''4''
                        else (Inr ''0'' :: error + string)"
  let ?fl = "\<lambda>t. if t = ''4'' then Some (4::real) else if t = ''0'' then Some 0 else None"
  have found: "?finder ''bucket'' ''.*(^|/)result.out'' ''s'' = Inr ?names"
    by simp
  have ret: "collect_results_as_list ?finder ?fg ?fl ''s'' ''.*(^|/)result.out'' ''bucket'' Map.empty
               = Inr [Some 4, Some 0]"
    by (simp add: collect_results_as_list_def py_float_def)
  from collect_results_in_order [of ?finder "''bucket''" "''.*(^|/)result.out''" "''s''" ?names
      ?fg ?fl Map.empty "[Some 4, Some 0]", OF found ret] ret
  show ?thesis by simp
qed

section \<open>Properties of the search patterns\<close>

lemma search_from_iff:
  "search_from r b k \<longleftrightarrow> (\<exists>p s. k = p @ s \<and> matches r (b \<and> p = [], s) \<noteq> [])"
proof (induction k arbitrary: b)
  case Nil
  then show ?case by simp
next
  case (Cons x xs)
  have "(\<exists>p s. x # xs = p @ s \<and> matches r (b \<and> p = [], s) \<noteq> [])
          \<longleftrightarrow> matches r (b, x # xs) \<noteq> [] \<or> (\<exists>p s. xs = p @ s \<and> matches r (False, s) \<noteq> [])"
    (is "?L \<longleftrightarrow> ?A \<or> ?B")
  proof
    assume ?L
    then obtain p s where ps: "x # xs = p @ s" "matches r (b \<and> p = [], s) \<noteq> []" by blast
    show "?A \<or> ?B"
    proof (cases p)
      case Nil
      with ps show ?thesis by simp
    next
      case (Cons y p')
      with ps have "xs = p' @ s" "matches r (False, s) \<noteq> []" by simp_all
      then show ?thesis by blast
    qed
  next
    assume "?A \<or> ?B"
    then show ?L
    proof
      assume ?A
      then have "x # xs = [] @ (x # xs) \<and> matches r (b \<and> ([]::string) = [], x # xs) \<noteq> []" by simp
      then show ?L by blast
    next
      assume ?B
      then obtain p s where "xs = p @ s" "matches r (False, s) \<noteq> []" by blast
      then have "x # xs = (x # p) @ s \<and> matches r (b \<and> x # p = [], s) \<noteq> []" by simp
      then show ?L by blast
    qed
  qed
  with Cons.IH [of False] show ?case by simp
qed

lemma matches_Cat_nonempty:
  "matches (Cat r1 r2) c \<noteq> [] \<longleftrightarrow> (\<exists>c' \<in> set (matches r1 c). matches r2 c' \<noteq> [])"
  by auto

lemma set_matches_lit:
  "set (matches (lit w) (b, s)) = (if prefix w s then {(b \<and> w = [], drop (length w) s)} else {})"
proof (induction w arbitrary: b s)
  case Nil
  then show ?case by simp
next
  case (Cons a w)
  show ?case
  proof (cases s)
    case Nil
    then show ?thesis by simp
  next
    case (Cons x xs)
    then show ?thesis using Cons.IH [of False xs] by simp
  qed
qed

lemma matches_result_out:
  "matches result_out (b, s) \<noteq> [] \<longleftrightarrow>
     (\<exists>c t. s = ''result'' @ [c] @ ''out'' @ t \<and> c \<noteq> CHR 0x0A)"
proof
  assume "matches result_out (b, s) \<noteq> []"
  then obtain c' where c': "c' \<in> set (matches (lit ''result'') (b, s))"
    and rest: "matches (Cat Dot (lit ''out'')) c' \<noteq> []"
    unfolding result_out_def matches_Cat_nonempty by blast
  from c' have pre: "prefix ''result'' s" and c'_eq: "c' = (False, drop (length ''result'') s)"
    by (simp_all add: set_matches_lit del: lit.simps split: if_splits)
  from pre obtain u where s: "s = ''result'' @ u" by (auto simp add: prefix_def)
  with c'_eq have c'_u: "c' = (False, u)" by simp
  from rest obtain c'' where c'': "c'' \<in> set (matches Dot c')"
    and rest': "matches (lit ''out'') c'' \<noteq> []"
    unfolding matches_Cat_nonempty by blast
  from c'' c'_u obtain x xs where u: "u = x # xs" and x: "x \<noteq> CHR 0x0A" and c''_eq: "c'' = (False, xs)"
    by (cases u) (auto split: if_splits)
  from rest' c''_eq have "set (matches (lit ''out'') (False, xs)) \<noteq> {}" by simp
  then have "prefix ''out'' xs" by (simp add: set_matches_lit del: lit.simps split: if_splits)
  then obtain t where "xs = ''out'' @ t" by (auto simp add: prefix_def)
  with s u x have "s = ''result'' @ [x] @ ''out'' @ t \<and> x \<noteq> CHR 0x0A" by simp
  then show "\<exists>c t. s = ''result'' @ [c] @ ''out'' @ t \<and> c \<noteq> CHR 0x0A" by blast
next
  assume "\<exists>c t. s = ''result'' @ [c] @ ''out'' @ t \<and> c \<noteq> CHR 0x0A"
  then obtain c t where "s = ''result'' @ [c] @ ''out'' @ t" "c \<noteq> CHR 0x0A" by blast
  then show "matches result_out (b, s) \<noteq> []"
    by (simp add: result_out_def)
qed

lemma star_from_Dot_cursor:
  "(b', s') \<in> set (star_from n (matches Dot) (b, s)) \<Longrightarrow> \<exists>q. s = q @ s' \<and> b' = (b \<and> q = [])"
proof (induction n arbitrary: b s)
  case 0
  then show ?case by simp
next
  case (Suc n)
  show ?case
  proof (cases "(b', s') = (b, s)")
    case True
    then show ?thesis by simp
  next
    case False
    with Suc.prems obtain c' where c'_in: "c' \<in> set (matches Dot (b, s))"
      and mem': "(b', s') \<in> set (star_from n (matches Dot) c')"
      by (auto simp del: matches.simps)
    from c'_in obtain x xs where s: "s = x # xs" and c'_eq: "c' = (False, xs)"
      by (cases s) (auto split: if_splits)
    from mem' c'_eq have mem: "(b', s') \<in> set (star_from n (matches Dot) (False, xs))"
      by simp
    from Suc.IH [OF mem] obtain q where "xs = q @ s'" "b' = (False \<and> q = [])" by blast
    with s have "s = (x # q) @ s' \<and> b' = (b \<and> x # q = [])" by simp
    then show ?thesis by blast
  qed
qed

lemma star_from_self: "c \<in> set (star_from n f c)"
  by (cases n) simp_all

lemma search_pattern_lightweight_iff:
  "re_search search_pattern_lightweight key \<longleftrightarrow>
     (\<exists>c t. key = ''result'' @ [c] @ ''out'' @ t \<and> c \<noteq> CHR 0x0A)
     \<or> (\<exists>p c t. key = p @ ''/result'' @ [c] @ ''out'' @ t \<and> c \<noteq> CHR 0x0A)"
  (is "?L \<longleftrightarrow> ?A \<or> ?B")
proof
  assume ?L
  then obtain p s where key: "key = p @ s"
    and m: "matches search_pattern_lightweight (p = [], s) \<noteq> []"
    unfolding re_search_def search_from_iff by auto
  from m obtain c1 where c1: "c1 \<in> set (matches (Star Dot) (p = [], s))"
    and m1: "matches (Cat (Alt Bol (Chr CHR ''/'')) result_out) c1 \<noteq> []"
    unfolding search_pattern_lightweight_def matches_Cat_nonempty by blast
  obtain b1 s1 where c1_eq: "c1 = (b1, s1)" by (cases c1)
  from c1 c1_eq have "(b1, s1) \<in> set (star_from (length s) (matches Dot) (p = [], s))" by simp
  from star_from_Dot_cursor [OF this] obtain q where q: "s = q @ s1" "b1 = (p = [] \<and> q = [])"
    by blast
  from m1 obtain c2 where c2: "c2 \<in> set (matches (Alt Bol (Chr CHR ''/'')) c1)"
    and m2: "matches result_out c2 \<noteq> []"
    unfolding matches_Cat_nonempty by blast
  from c2 c1_eq have "(b1 \<and> c2 = (b1, s1)) \<or> (\<exists>s2. s1 = CHR ''/'' # s2 \<and> c2 = (False, s2))"
    by (cases s1) (auto split: if_splits)
  then show "?A \<or> ?B"
  proof
    assume "b1 \<and> c2 = (b1, s1)"
    with q key have "key = s1" "c2 = (b1, s1)" by simp_all
    with m2 have ?A by (simp add: matches_result_out)
    then show ?thesis ..
  next
    assume "\<exists>s2. s1 = CHR ''/'' # s2 \<and> c2 = (False, s2)"
    then obtain s2 where s2: "s1 = CHR ''/'' # s2" "c2 = (False, s2)" by blast
    with m2 obtain c t where "s2 = ''result'' @ [c] @ ''out'' @ t" "c \<noteq> CHR 0x0A"
      by (auto simp add: matches_result_out)
    with s2 q key have "key = (p @ q) @ ''/result'' @ [c] @ ''out'' @ t \<and> c \<noteq> CHR 0x0A" by simp
    then have ?B by blast
    then show ?thesis ..
  qed
next
  assume "?A \<or> ?B"
  then show ?L
  proof
    assume ?A
    then have "matches result_out (True, key) \<noteq> []" by (simp add: matches_result_out)
    moreover have "(True, key) \<in> set (matches (Alt Bol (Chr CHR ''/'')) (True, key))" by simp
    ultimately have "matches (Cat (Alt Bol (Chr CHR ''/'')) result_out) (True, key) \<noteq> []"
      unfolding matches_Cat_nonempty by blast
    moreover have "(True, key) \<in> set (matches (Star Dot) (True, key))"
      by (simp add: star_from_self)
    ultimately have "matches search_pattern_lightweight (True, key) \<noteq> []"
      unfolding search_pattern_lightweight_def matches_Cat_nonempty by blast
    then have "key = [] @ key \<and> matches search_pattern_lightweight (True \<and> ([]::string) = [], key) \<noteq> []"
      by simp
    then show ?L unfolding re_search_def search_from_iff by blast
  next
    assume ?B
    then obtain p c t where key: "key = p @ ''/result'' @ [c] @ ''out'' @ t" and c: "c \<noteq> CHR 0x0A"
      by blast
    let ?s2 = "''result'' @ [c] @ ''out'' @ t"
    let ?s1 = "CHR ''/'' # ?s2"
    let ?b = "p = []"
    from c have "matches result_out (False, ?s2) \<noteq> []"
      unfolding matches_result_out by blast
    moreover have "(False, ?s2) \<in> set (matches (Alt Bol (Chr CHR ''/'')) (?b, ?s1))" by simp
    ultimately have "matches (Cat (Alt Bol (Chr CHR ''/'')) result_out) (?b, ?s1) \<noteq> []"
      unfolding matches_Cat_nonempty by blast
    moreover have "(?b, ?s1) \<in> set (matches (Star Dot) (?b, ?s1))"
      by (simp add: star_from_self)
    ultimately have "matches search_pattern_lightweight (?b, ?s1) \<noteq> []"
      unfolding search_pattern_lightweight_def matches_Cat_nonempty by blast
    moreover have "key = p @ ?s1" using key by simp
    ultimately have "key = p @ ?s1 \<and> matches search_pattern_lightweight (True \<and> p = [], ?s1) \<noteq> []"
      by simp
    then show ?L unfolding re_search_def search_from_iff by blast
  qed
qed

lemma search_pattern_reusable_iff:
  "re_search search_pattern_reusable key \<longleftrightarrow>
     (\<exists>p c t. key = p @ ''/result'' @ [c] @ ''out'' @ t \<and> c \<noteq> CHR 0x0A)"
  (is "?L \<longleftrightarrow> ?B")
proof
  assume ?L
  then obtain p s where key: "key = p @ s"
    and m: "matches search_pattern_reusable (p = [], s) \<noteq> []"
    unfolding re_search_def search_from_iff by auto
  from m obtain c2 where c2: "c2 \<in> set (matches (Chr CHR ''/'') (p = [], s))"
    and m2: "matches result_out c2 \<noteq> []"
    unfolding search_pattern_reusable_def matches_Cat_nonempty by blast
  from c2 obtain s2 where s2: "s = CHR ''/'' # s2" "c2 = (False, s2)"
    by (cases s) (auto split: if_splits)
  with m2 obtain c t where "s2 = ''result'' @ [c] @ ''out'' @ t" "c \<noteq> CHR 0x0A"
    by (auto simp add: matches_result_out)
  with s2 key have "key = p @ ''/result'' @ [c] @ ''out'' @ t \<and> c \<noteq> CHR 0x0A" by simp
  then show ?B by blast
next
  assume ?B
  then obtain p c t where key: "key = p @ ''/result'' @ [c] @ ''out'' @ t" and c: "c \<noteq> CHR 0x0A"
    by blast
  let ?s2 = "''result'' @ [c] @ ''out'' @ t"
  let ?s1 = "CHR ''/'' # ?s2"
  from c have "matches result_out (False, ?s2) \<noteq> []"
    unfolding matches_result_out by blast
  moreover have "(False, ?s2) \<in> set (matches (Chr CHR ''/'') (p = [], ?s1))" by simp
  ultimately have "matches search_pattern_reusable (p = [], ?s1) \<noteq> []"
    unfolding search_pattern_reusable_def matches_Cat_nonempty by blast
  moreover have "key = p @ ?s1" using key by simp
  ultimately have "key = p @ ?s1 \<and> matches search_pattern_reusable (True \<and> p = [], ?s1) \<noteq> []"
    by simp
  then show ?L unfolding re_search_def search_from_iff by blast
qed

text \<open>
  C4 (as stated, refuted): the reusable pattern \<open>/result.out\<close> does not match the bare
  key \<open>result.out\<close>; and both patterns match \<open>d/result.out/not_a_result.out\<close>, a key
  whose final path segment merely ends in \<open>result.out\<close>.
\<close>

theorem search_patterns_claim_fails:
  "\<not> re_search search_pattern_reusable ''result.out''
   \<and> re_search search_pattern_lightweight ''d/result.out/not_a_result.out''
   \<and> re_search search_pattern_reusable ''d/result.out/not_a_result.out''"
  by (simp add: re_search_def search_pattern_lightweight_def search_pattern_reusable_def
      result_out_def)

text \<open>
  C4 (amended): as unanchored regular expressions over keys, the lightweight pattern
  \<open>.*(^|/)result.out\<close> matches \<open>a/b/result.out\<close> and the bare \<open>result.out\<close>; the
  reusable pattern \<open>/result.out\<close> matches \<open>a/b/result.out\<close> but not the bare
  \<open>result.out\<close>; neither matches \<open>not_a_result.out\<close>.  In general a key is matched
  exactly when the text \<open>result\<close>, one character other than a newline, \<open>out\<close> occurs in
  it right after a \<open>/\<close> or, for the lightweight pattern only, at the very start of the
  key; what follows that text is not looked at.
\<close>

theorem search_patterns_match:
  "re_search search_pattern_lightweight ''a/b/result.out''
   \<and> re_search search_pattern_lightweight ''result.out''
   \<and> \<not> re_search search_pattern_lightweight ''not_a_result.out''
   \<and> re_search search_pattern_reusable ''a/b/result.out''
   \<and> \<not> re_search search_pattern_reusable ''result.out''
   \<and> \<not> re_search search_pattern_reusable ''not_a_result.out''
   \<and> (re_search search_pattern_lightweight key \<longleftrightarrow>
        (\<exists>c t. key = ''result'' @ [c] @ ''out'' @ t \<and> c \<noteq> CHR 0x0A)
        \<or> (\<exists>p c t. key = p @ ''/result'' @ [c] @ ''out'' @ t \<and> c \<noteq> CHR 0x0A))
   \<and> (re_search search_pattern_reusable key \<longleftrightarrow>
        (\<exists>p c t. key = p @ ''/result'' @ [c] @ ''out'' @ t \<and> c \<noteq> CHR 0x0A))"
proof -
  have "re_search search_pattern_lightweight ''a/b/result.out''"
    by (simp add: re_search_def search_pattern_lightweight_def result_out_def)
  moreover have "re_search search_pattern_lightweight ''result.out''"
    by (simp add: re_search_def search_pattern_lightweight_def result_out_def)
  moreover have "\<not> re_search search_pattern_lightweight ''not_a_result.out''"
    by (simp add: re_search_def search_pattern_lightweight_def result_out_def)
  moreover have "re_search search_pattern_reusable ''a/b/result.out''"
    by (simp add: re_search_def search_pattern_reusable_def result_out_def)
  moreover have "\<not> re_search search_pattern_reusable ''result.out''"
    by (simp add: re_search_def search_pattern_reusable_def result_out_def)
  moreover have "\<not> re_search search_pattern_reusable ''not_a_result.out''"
    by (simp add: re_search_def search_pattern_reusable_def result_out_def)
  moreover note search_pattern_lightweight_iff [of key] search_pattern_reusable_iff [of key]
  ultimately show ?thesis by blast
qed

end
